theory Spec2Isabelle
  imports Complex_Main
begin

section \<open>Python strings\<close>

text \<open>
  A Python \<open>str\<close> is a sequence of Unicode code points. The embedding covers the strings
  whose code points lie in U+0000..U+00FF: a \<^typ>\<open>char\<close> is one code point, so
  \<^const>\<open>length\<close> counts what Python's \<open>len\<close> counts. The accented letters of
  \<open>app.py\<close> are all in that range. The character classes below are those of CPython 3
  (\<open>str.isspace\<close>, \<open>str.lower\<close>, the \<open>\s\<close> and \<open>\w\<close> of \<open>re\<close> on a
  \<open>str\<close> pattern), restricted to it.
\<close>

definition py_isspace :: "char \<Rightarrow> bool" where
  \<comment> \<open>\<open>str.isspace\<close> and the regex class \<open>\s\<close>: TAB..CR, FS..US, space, NEL, NBSP.\<close>
  "py_isspace c =
     (let n = (of_char c :: nat)
      in (9 \<le> n \<and> n \<le> 13) \<or> (28 \<le> n \<and> n \<le> 32) \<or> n = 133 \<or> n = 160)"

definition py_isword :: "char \<Rightarrow> bool" where
  \<comment> \<open>The regex class \<open>\w\<close>: \<open>str.isalnum\<close> or the underscore.\<close>
  "py_isword c =
     (let n = (of_char c :: nat)
      in (48 \<le> n \<and> n \<le> 57) \<or> (65 \<le> n \<and> n \<le> 90) \<or> n = 95 \<or> (97 \<le> n \<and> n \<le> 122)
         \<or> n = 170 \<or> n = 178 \<or> n = 179 \<or> n = 181 \<or> n = 185 \<or> n = 186
         \<or> (188 \<le> n \<and> n \<le> 190) \<or> (192 \<le> n \<and> n \<le> 214) \<or> (216 \<le> n \<and> n \<le> 246)
         \<or> (248 \<le> n \<and> n \<le> 255))"

definition py_lower_chr :: "char \<Rightarrow> char" where
  \<comment> \<open>\<open>str.lower\<close> on one code point: A..Z and the capital letters U+00C0..U+00DE
      (without the multiplication sign U+00D7) move up by 32.\<close>
  "py_lower_chr c =
     (let n = (of_char c :: nat)
      in if (65 \<le> n \<and> n \<le> 90) \<or> (192 \<le> n \<and> n \<le> 222 \<and> n \<noteq> 215)
         then char_of (n + 32) else c)"

definition py_lower :: "string \<Rightarrow> string" where
  "py_lower s = map py_lower_chr s"

definition py_replace :: "char \<Rightarrow> char \<Rightarrow> string \<Rightarrow> string" where
  \<comment> \<open>\<open>text.replace(old, new)\<close> where \<open>old\<close> and \<open>new\<close> are one-character strings.\<close>
  "py_replace old new s = map (\<lambda>c. if c = old then new else c) s"

function re_sub_spaces :: "string \<Rightarrow> string" where
  \<comment> \<open>\<open>re.sub(r'\s+', ' ', text)\<close>: scanning left to right, each maximal run of
      whitespace is replaced by one space.\<close>
  "re_sub_spaces [] = []"
| "re_sub_spaces (c # cs) =
     (if py_isspace c then CHR '' '' # re_sub_spaces (dropWhile py_isspace cs)
      else c # re_sub_spaces cs)"
  by pat_completeness auto
termination
  by (relation "measure length") (auto simp: less_Suc_eq_le length_dropWhile_le)

definition py_lstrip :: "string \<Rightarrow> string" where
  "py_lstrip s = dropWhile py_isspace s"

definition py_rstrip :: "string \<Rightarrow> string" where
  "py_rstrip s = rev (dropWhile py_isspace (rev s))"

definition py_strip :: "string \<Rightarrow> string" where
  \<comment> \<open>\<open>s.strip()\<close>: whitespace removed at both ends\<close>
  "py_strip s = py_rstrip (py_lstrip s)"

fun re_findall_words :: "string \<Rightarrow> string \<Rightarrow> string list" where
  \<comment> \<open>\<open>re.findall(r'\b\w+\b', text)\<close>: the maximal runs of word characters, left to
      right; the first argument is the run being read, reversed.\<close>
  "re_findall_words cur [] = (if cur = [] then [] else [rev cur])"
| "re_findall_words cur (c # cs) =
     (if py_isword c then re_findall_words (c # cur) cs
      else (if cur = [] then [] else [rev cur]) @ re_findall_words [] cs)"

fun py_join :: "'a list \<Rightarrow> 'a list list \<Rightarrow> 'a list" where
  \<comment> \<open>\<open>sep.join(xs)\<close>\<close>
  "py_join sep [] = []"
| "py_join sep [x] = x"
| "py_join sep (x # y # ys) = x @ sep @ py_join sep (y # ys)"

fun py_split :: "'a \<Rightarrow> 'a list \<Rightarrow> 'a list list" where
  \<comment> \<open>\<open>s.split(sep)\<close> for a one-element separator: the empty string gives one empty
      field.\<close>
  "py_split sep [] = [[]]"
| "py_split sep (c # cs) =
     (if c = sep then [] # py_split sep cs
      else (case py_split sep cs of [] \<Rightarrow> [[c]] | w # ws \<Rightarrow> (c # w) # ws))"

section \<open>Text utilities of \<open>app.py\<close>\<close>

definition replacements :: "(char \<times> char) list" where
  \<comment> \<open>The dict literal of \<open>normalize_text\<close>, in insertion order:
      a-acute, e-acute, i-acute, o-acute, u-acute, n-tilde, u-diaeresis.\<close>
  "replacements =
     [(CHR 0xE1, CHR ''a''), (CHR 0xE9, CHR ''e''), (CHR 0xED, CHR ''i''),
      (CHR 0xF3, CHR ''o''), (CHR 0xFA, CHR ''u''), (CHR 0xF1, CHR ''n''),
      (CHR 0xFC, CHR ''u'')]"

definition normalize_text :: "string option \<Rightarrow> string" where
  \<comment> \<open>\<open>None\<close> and the empty string are both falsy.\<close>
  "normalize_text text =
     (case text of
        None \<Rightarrow> []
      | Some t \<Rightarrow>
          if t = [] then []
          else py_strip (re_sub_spaces
                 (fold (\<lambda>(old, new) s. py_replace old new s) replacements (py_lower t))))"

definition stop_words :: "string set" where
  "stop_words = {''de'', ''la'', ''el'', ''en'', ''con'', ''para'', ''por'', ''un'', ''una'',
                 ''y'', ''o'', ''del'', ''las'', ''los''}"

definition endswith_s :: "string \<Rightarrow> bool" where
  "endswith_s w = (w \<noteq> [] \<and> last w = CHR ''s'')"

definition add_variant :: "string \<Rightarrow> string set \<Rightarrow> string set" where
  \<comment> \<open>The body of the loop over \<open>keywords\<close>.\<close>
  "add_variant word extended =
     (if endswith_s word \<and> length word > 3 then insert (butlast word) extended
      else insert (word @ ''s'') extended)"

definition keywords_of :: "string option \<Rightarrow> string list" where
  \<comment> \<open>The list \<open>keywords\<close> of \<open>extract_keywords\<close>.\<close>
  "keywords_of description =
     filter (\<lambda>w. length w > 2 \<and> w \<notin> stop_words)
       (re_findall_words [] (normalize_text description))"

definition extract_keywords :: "string option \<Rightarrow> string set" where
  \<comment> \<open>The source returns \<open>list(extended_keywords)\<close>, a list in the arbitrary order of a
      Python set; the model returns the set.\<close>
  "extract_keywords description =
     (case description of
        None \<Rightarrow> {}
      | Some d \<Rightarrow>
          if d = [] then {}
          else (let kws = keywords_of description
                in fold add_variant kws (set kws)))"

section \<open>The world outside the process\<close>

text \<open>
  The database driver, the HTTP client, the clock and the log are outside the program.
  Each call to them is an event of a trace, in program order, and what the call answers
  is a parameter of the model: a response of the server with its status code and text,
  or the exception that the call raised.
\<close>

datatype http_result = Raised string | Response int string

type_synonym source_row = "string \<times> string option \<times> rat option"
  \<comment> \<open>\<open>Codigo, Descri, PrecioFinal\<close>; a column may be NULL.\<close>

datatype db_result = DbError string | DbRows "source_row list"

record product =
  codigo :: string
  descripcion :: "string option"
  descripcion_normalizada :: string
  precio_final :: rat
  keywords_col :: "string set"
  updated_at :: string
  \<comment> \<open>the keys of the dict \<open>product\<close>; \<open>keywords_col\<close> is its key \<open>keywords\<close>, a name that
      Isabelle reserves\<close>

datatype sqlval = SqlNull | SqlStr string | SqlInt int | SqlDecimal rat | SqlFloat rat

datatype query_result =
    ConnectError string
  | QueryError string
  | QueryRows "string list" "sqlval list list"
  \<comment> \<open>an exception of \<open>pyodbc.connect\<close>, before any query is run; an exception of
      \<open>execute\<close> or \<open>fetchall\<close>; or the column names of \<open>cursor.description\<close> and the
      rows\<close>

datatype event =
    Print_NotConfigured
  | Print_Start
  | Db_Connect
  | Db_Execute string "string list"
  | Print_Read nat
  | Http_Delete
  | Print_DeleteError int string
  | Http_Post "product list"
  | Print_BatchOk nat nat
  | Print_BatchError nat int string
  | Print_Completed nat
  | Print_SyncError string

record world =
  SUPABASE_URL :: "string option"
  SUPABASE_KEY :: "string option"
  catalog_rows :: db_result
  now_iso :: "nat \<Rightarrow> string"
  delete_resp :: http_result
  post_resp :: "nat \<Rightarrow> product list \<Rightarrow> http_result"

section \<open>Synchronisation of the catalogue\<close>

definition falsy :: "string option \<Rightarrow> bool" where
  \<comment> \<open>\<open>not x\<close> for an environment value: unset or empty.\<close>
  "falsy x = (x = None \<or> x = Some [])"

definition enrich :: "(nat \<Rightarrow> string) \<Rightarrow> nat \<times> source_row \<Rightarrow> product" where
  \<comment> \<open>The body of the loop over \<open>cursor.fetchall()\<close>, for the row of the given index.
      \<open>float(precio) if precio else 0\<close>: the rounding of \<open>float\<close> is not modelled.\<close>
  "enrich clock ir =
     (case ir of (i, cod, descri, precio) \<Rightarrow>
        \<lparr> codigo = cod,
          descripcion = descri,
          descripcion_normalizada = normalize_text descri,
          precio_final = (case precio of None \<Rightarrow> 0 | Some p \<Rightarrow> if p = 0 then 0 else p),
          keywords_col = extract_keywords descri,
          updated_at = clock i \<rparr>)"

definition sanitize_msg :: "string \<Rightarrow> string" where
  \<comment> \<open>The replacements of the \<open>except\<close> branch, in their order.\<close>
  "sanitize_msg msg =
     fold (\<lambda>(a, b) m. py_replace a b m)
       [(CHR 0xF3, CHR ''o''), (CHR 0xED, CHR ''i''), (CHR 0xE1, CHR ''a''),
        (CHR 0xE9, CHR ''e''), (CHR 0xFA, CHR ''u'')] msg"

definition batch_size :: nat where
  "batch_size = 1000"

definition insert_ok :: "int \<Rightarrow> bool" where
  "insert_ok status = (status = 200 \<or> status = 201 \<or> status = 204)"

definition delete_ok :: "int \<Rightarrow> bool" where
  "delete_ok status = (status = 200 \<or> status = 204)"

function insert_batches ::
  "(nat \<Rightarrow> product list \<Rightarrow> http_result) \<Rightarrow> product list \<Rightarrow> nat \<Rightarrow> nat
     \<Rightarrow> bool \<times> nat \<times> event list" where
  \<comment> \<open>The loop \<open>for i in range(0, len(products), batch_size)\<close> from the index \<open>i\<close> on, with
      \<open>total_inserted\<close> as its state. The result says whether the loop ran to its end, the
      final \<open>total_inserted\<close>, and the trace. An exception of \<open>requests.post\<close> leaves the
      loop for the \<open>except\<close> branch of the function.\<close>
  "insert_batches post products i total_inserted =
     (if i < length products then
        (let batch = take batch_size (drop i products)
         in case post (i div batch_size) batch of
              Raised e \<Rightarrow>
                (False, total_inserted, [Http_Post batch, Print_SyncError (sanitize_msg e)])
            | Response status txt \<Rightarrow>
                if insert_ok status then
                  (case insert_batches post products (i + batch_size)
                          (total_inserted + length batch) of
                     (ok, n_inserted, evs) \<Rightarrow>
                       (ok, n_inserted,
                        Http_Post batch # Print_BatchOk (i div batch_size + 1) (length batch) # evs))
                else
                  (False, total_inserted,
                   [Http_Post batch, Print_BatchError (i div batch_size + 1) status txt]))
      else (True, total_inserted, []))"
  by pat_completeness auto
termination
  by (relation "measure (\<lambda>(post, products, i, n). length products - i)")
     (auto simp: batch_size_def)

definition sync_catalog_to_supabase :: "world \<Rightarrow> bool \<times> event list" where
  "sync_catalog_to_supabase w =
     (if falsy (SUPABASE_URL w) \<or> falsy (SUPABASE_KEY w) then (False, [Print_NotConfigured])
      else
        (case catalog_rows w of
           DbError e \<Rightarrow> (False, [Print_Start, Db_Connect, Print_SyncError (sanitize_msg e)])
         | DbRows rows \<Rightarrow>
             (let products = map (enrich (now_iso w)) (enumerate 0 rows);
                  read = [Print_Start, Db_Connect, Print_Read (length products), Http_Delete]
              in case delete_resp w of
                   Raised e \<Rightarrow> (False, read @ [Print_SyncError (sanitize_msg e)])
                 | Response status txt \<Rightarrow>
                     (let deleted =
                            read @ (if \<not> delete_ok status then [Print_DeleteError status txt]
                                    else [])
                      in case insert_batches (post_resp w) products 0 0 of
                           (ok, n_inserted, evs) \<Rightarrow>
                             if ok then (True, deleted @ evs @ [Print_Completed n_inserted])
                             else (False, deleted @ evs)))))"

definition posts :: "event list \<Rightarrow> product list list" where
  \<comment> \<open>The bodies of the POST requests of a trace, in order.\<close>
  "posts evs = concat (map (\<lambda>e. case e of Http_Post b \<Rightarrow> [b] | _ \<Rightarrow> []) evs)"

definition is_delete :: "event \<Rightarrow> bool" where
  "is_delete e = (e = Http_Delete)"

definition is_post :: "event \<Rightarrow> bool" where
  "is_post e = (case e of Http_Post b \<Rightarrow> True | _ \<Rightarrow> False)"

definition is_http :: "event \<Rightarrow> bool" where
  "is_http e = (is_delete e \<or> is_post e)"

section \<open>The search endpoint\<close>

record request =
  token_arg :: "string option"
  query_arg :: "string option"
  \<comment> \<open>\<open>request.args.get("token")\<close> and \<open>request.args.get("query")\<close>: \<open>None\<close> when the
      parameter is absent from the URL\<close>

datatype body =
    Abort_Body string
  | Error_Body string
  | Result_Body nat "(string \<times> sqlval) list list"

type_synonym response = "nat \<times> body"
  \<comment> \<open>status code and body\<close>

definition like_clauses :: "string list \<Rightarrow> string" where
  "like_clauses terms = py_join '' OR '' (map (\<lambda>t. ''Descri LIKE ?'') terms)"

definition like_params :: "string list \<Rightarrow> string list" where
  "like_params terms = map (\<lambda>t. ''%'' @ t @ ''%'') terms"

definition build_query :: "string list \<Rightarrow> string" where
  \<comment> \<open>The f-string of \<open>search_multi\<close>, with its line breaks and indentation.\<close>
  "build_query terms =
     [CHR 0x0A] @ ''                SELECT TOP 200 Codigo, Descri, PrecioFinal''
     @ [CHR 0x0A] @ ''                FROM dbo.ConsStock''
     @ [CHR 0x0A] @ ''                WHERE '' @ like_clauses terms @ '' AND PrecioFinal > 0''
     @ [CHR 0x0A] @ ''                ORDER BY PrecioFinal ASC''
     @ [CHR 0x0A] @ ''            ''"

fun dict_set :: "'k \<Rightarrow> 'v \<Rightarrow> ('k \<times> 'v) list \<Rightarrow> ('k \<times> 'v) list" where
  \<comment> \<open>\<open>d[k] = v\<close> on a dict kept in insertion order.\<close>
  "dict_set k v [] = [(k, v)]"
| "dict_set k v ((k', v') # d) = (if k = k' then (k, v) # d else (k', v') # dict_set k v d)"

definition py_dict :: "('k \<times> 'v) list \<Rightarrow> ('k \<times> 'v) list" where
  \<comment> \<open>\<open>dict(pairs)\<close>\<close>
  "py_dict pairs = fold (\<lambda>(k, v) d. dict_set k v d) pairs []"

definition to_transport :: "sqlval \<Rightarrow> sqlval" where
  \<comment> \<open>\<open>float(value)\<close> for a \<open>Decimal\<close>; the rounding of \<open>float\<close> is not modelled.\<close>
  "to_transport v = (case v of SqlDecimal d \<Rightarrow> SqlFloat d | _ \<Rightarrow> v)"

definition make_record :: "string list \<Rightarrow> sqlval list \<Rightarrow> (string \<times> sqlval) list" where
  "make_record columns row = map (\<lambda>(k, v). (k, to_transport v)) (py_dict (zip columns row))"

definition query_text :: "request \<Rightarrow> string" where
  \<comment> \<open>\<open>request.args.get("query", "")\<close>\<close>
  "query_text req = (case query_arg req of None \<Rightarrow> [] | Some q \<Rightarrow> q)"

definition search_multi ::
  "string option \<Rightarrow> (string \<Rightarrow> string list \<Rightarrow> query_result) \<Rightarrow> request
     \<Rightarrow> response \<times> event list" where
  \<comment> \<open>The first argument is \<open>os.environ.get("API_TOKEN")\<close>, the second what the database
      does in this request: it refuses the connection, or it answers the query text and
      its parameters. When the connection fails no query is run.\<close>
  "search_multi api_token db req =
     (if token_arg req \<noteq> api_token then ((403, Abort_Body ''Unauthorized''), [])
      else
        (let query_param = py_strip (query_text req)
         in if query_param = [] then ((400, Error_Body ''Query parameter is required.''), [])
            else
              (let terms = map py_strip
                             (filter (\<lambda>t. py_strip t \<noteq> []) (py_split (CHR '','') query_param))
               in if terms = [] then ((400, Error_Body ''No valid terms provided.''), [])
                  else
                    (let params = like_params terms;
                         query = build_query terms;
                         trace = [Db_Connect, Db_Execute query params]
                     in case db query params of
                          ConnectError e \<Rightarrow> ((500, Error_Body e), [Db_Connect])
                        | QueryError e \<Rightarrow> ((500, Error_Body e), trace)
                        | QueryRows columns rows \<Rightarrow>
                            (let results = map (make_record columns) rows
                             in ((200, Result_Body (length results) results), trace))))))"

section \<open>How the database reads the WHERE clause\<close>

text \<open>
  In SQL, \<open>AND\<close> binds tighter than \<open>OR\<close>: a search condition without parentheses is a
  disjunction of conjunctions of predicates. The reading below takes the line of the query
  that starts with \<open>WHERE\<close>, numbers its parameter markers from the left, and splits it at
  the \<open>OR\<close>s first and at the \<open>AND\<close>s inside each part.
\<close>

datatype sql_token = Word string | Marker nat

datatype predicate = Descri_Like nat | PrecioFinal_Positive | Other_Predicate

definition sql_words :: "string \<Rightarrow> string list" where
  \<comment> \<open>the words of a line, separated by blanks\<close>
  "sql_words l = filter (\<lambda>w. w \<noteq> []) (py_split (CHR '' '') l)"

fun number_markers :: "nat \<Rightarrow> string list \<Rightarrow> sql_token list" where
  "number_markers k [] = []"
| "number_markers k (w # ws) =
     (if w = ''?'' then Marker k # number_markers (Suc k) ws
      else Word w # number_markers k ws)"

definition where_tokens :: "string \<Rightarrow> sql_token list" where
  "where_tokens q =
     concat (map (\<lambda>l. case sql_words l of
                        [] \<Rightarrow> []
                      | w # ws \<Rightarrow> if w = ''WHERE'' then number_markers 0 ws else [])
                 (py_split (CHR 0x0A) q))"

fun read_predicate :: "sql_token list \<Rightarrow> predicate" where
  "read_predicate [Word a, Word b, Marker k] =
     (if a = ''Descri'' \<and> b = ''LIKE'' then Descri_Like k else Other_Predicate)"
| "read_predicate [Word a, Word b, Word c] =
     (if a = ''PrecioFinal'' \<and> b = ''>'' \<and> c = ''0'' then PrecioFinal_Positive
      else Other_Predicate)"
| "read_predicate ts = Other_Predicate"

definition where_condition :: "string \<Rightarrow> predicate list list" where
  \<comment> \<open>the disjuncts of the WHERE clause, each one the list of its conjuncts\<close>
  "where_condition q =
     map (\<lambda>d. map read_predicate (py_split (Word ''AND'') d))
       (py_split (Word ''OR'') (where_tokens q))"

record row_facts =
  matches :: "nat \<Rightarrow> bool"
  price_positive :: bool
  \<comment> \<open>for one row of the table: whether \<open>Descri\<close> matches the pattern bound to the k-th
      marker, and whether \<open>PrecioFinal > 0\<close>\<close>

fun holds :: "row_facts \<Rightarrow> predicate \<Rightarrow> bool" where
  "holds r (Descri_Like k) = matches r k"
| "holds r PrecioFinal_Positive = price_positive r"
| "holds r Other_Predicate = False"

definition selects :: "string \<Rightarrow> row_facts \<Rightarrow> bool" where
  "selects q r = list_ex (\<lambda>d. list_all (holds r) d) (where_condition q)"

section \<open>Notions of the specification\<close>

definition spec_variant :: "string \<Rightarrow> string" where
  \<comment> \<open>The derived variant of a token: the trailing \<open>s\<close> stripped if the token ends in
      \<open>s\<close> and is longer than 3, otherwise an \<open>s\<close> appended.\<close>
  "spec_variant w = (if endswith_s w \<and> length w > 3 then butlast w else w @ ''s'')"

definition spec_unaccent :: "char \<Rightarrow> char" where
  \<comment> \<open>the fixed table of accented characters; every other character is kept\<close>
  "spec_unaccent c = (case map_of replacements c of None \<Rightarrow> c | Some plain \<Rightarrow> plain)"

definition fold_chr :: "char \<Rightarrow> char" where
  \<comment> \<open>one character lower-cased, then looked up in the table\<close>
  "fold_chr c = spec_unaccent (py_lower_chr c)"

function ws_fields :: "string \<Rightarrow> string list" where
  \<comment> \<open>the maximal runs of characters that are not whitespace, left to right\<close>
  "ws_fields s =
     (case dropWhile py_isspace s of
        [] \<Rightarrow> []
      | c # cs \<Rightarrow>
          (c # takeWhile (\<lambda>x. \<not> py_isspace x) cs)
          # ws_fields (dropWhile (\<lambda>x. \<not> py_isspace x) cs))"
  by pat_completeness auto
termination
proof (relation "measure length")
  show "wf (measure length)" by simp
next
  fix s :: string and c cs
  assume "dropWhile py_isspace s = c # cs"
  then have "Suc (length cs) \<le> length s"
    using length_dropWhile_le [of py_isspace s] by simp
  moreover have "length (dropWhile (\<lambda>x. \<not> py_isspace x) cs) \<le> length cs"
    by (rule length_dropWhile_le)
  ultimately show "(dropWhile (\<lambda>x. \<not> py_isspace x) cs, s) \<in> measure length"
    by simp
qed

definition spec_normalize :: "string \<Rightarrow> string" where
  \<comment> \<open>Lower-cased, the characters of the table replaced, the whitespace-separated pieces
      joined by single spaces: every run of whitespace is one space, and there is none
      at either end.\<close>
  "spec_normalize t = py_join '' '' (ws_fields (map fold_chr t))"

definition configured :: "world \<Rightarrow> bool" where
  \<comment> \<open>the credentials of the mirror store are set\<close>
  "configured w = (\<not> falsy (SUPABASE_URL w) \<and> \<not> falsy (SUPABASE_KEY w))"

definition is_delete_error :: "event \<Rightarrow> bool" where
  \<comment> \<open>the log line about a failed bulk delete\<close>
  "is_delete_error e = (case e of Print_DeleteError s t \<Rightarrow> True | _ \<Rightarrow> False)"

definition batch_event :: "event \<Rightarrow> bool" where
  \<comment> \<open>the events of the insertion loop\<close>
  "batch_event e =
     (case e of Http_Post b \<Rightarrow> True | Print_BatchOk k l \<Rightarrow> True
      | Print_BatchError k s t \<Rightarrow> True | Print_SyncError m \<Rightarrow> True | _ \<Rightarrow> False)"

function batches :: "nat \<Rightarrow> 'a list \<Rightarrow> 'a list list" where
  \<comment> \<open>Fixed-size batches: consecutive pieces of \<open>n\<close> elements, the last one with what is
      left.\<close>
  "batches n xs = (if n = 0 \<or> xs = [] then [] else take n xs # batches n (drop n xs))"
  by pat_completeness auto
termination
  by (relation "measure (\<lambda>(n, xs). length xs)") auto

definition accepted :: "http_result \<Rightarrow> bool" where
  \<comment> \<open>the insert call came back with a success status\<close>
  "accepted r = (case r of Raised e \<Rightarrow> False | Response status txt \<Rightarrow> insert_ok status)"

fun send_batches ::
  "(nat \<Rightarrow> 'a list \<Rightarrow> http_result) \<Rightarrow> nat \<Rightarrow> 'a list list \<Rightarrow> bool \<times> 'a list list" where
  \<comment> \<open>Sending a list of batches one after the other, numbered from \<open>m\<close>, until one is not
      accepted: whether all were accepted, and the batches that were sent.\<close>
  "send_batches post m [] = (True, [])"
| "send_batches post m (b # bs) =
     (if accepted (post m b)
      then (case send_batches post (Suc m) bs of (ok, sent) \<Rightarrow> (ok, b # sent))
      else (False, [b]))"

fun like_words :: "nat \<Rightarrow> string list" where
  \<comment> \<open>the words of \<open>n + 1\<close> LIKE predicates joined by \<open>OR\<close>\<close>
  "like_words 0 = [''Descri'', ''LIKE'', ''?'']"
| "like_words (Suc n) = [''Descri'', ''LIKE'', ''?'', ''OR''] @ like_words n"

definition spec_selects :: "nat \<Rightarrow> row_facts \<Rightarrow> bool" where
  \<comment> \<open>the condition of the specification for \<open>n\<close> terms: one of the \<open>n\<close> patterns
      matches, and the price is positive\<close>
  "spec_selects n r = (list_ex (matches r) [0..<n] \<and> price_positive r)"

section \<open>Sample inputs\<close>

definition sample_row :: source_row where
  "sample_row = (''A100'', Some ''Tornillos de Acero'', Some 12)"

definition sample_clock :: "nat \<Rightarrow> string" where
  "sample_clock i = ''2024-01-01T00:00:00''"

definition second_fails :: "nat \<Rightarrow> product list \<Rightarrow> http_result" where
  \<comment> \<open>the mirror store refuses the second insert call\<close>
  "second_fails k b = (if k = 1 then Response 500 ''refused'' else Response 201 [])"

definition world_2500 :: world where
  "world_2500 =
     \<lparr> SUPABASE_URL = Some ''https://mirror.example'', SUPABASE_KEY = Some ''key'',
       catalog_rows = DbRows (replicate 2500 sample_row), now_iso = sample_clock,
       delete_resp = Response 204 [], post_resp = second_fails \<rparr>"

definition world_one :: world where
  "world_one =
     \<lparr> SUPABASE_URL = Some ''https://mirror.example'', SUPABASE_KEY = Some ''key'',
       catalog_rows = DbRows [sample_row], now_iso = sample_clock,
       delete_resp = Response 500 ''down'', post_resp = second_fails \<rparr>"

definition world_empty :: world where
  "world_empty =
     \<lparr> SUPABASE_URL = Some ''https://mirror.example'', SUPABASE_KEY = Some ''key'',
       catalog_rows = DbRows [], now_iso = sample_clock,
       delete_resp = Response 500 ''down'', post_resp = second_fails \<rparr>"

definition world_unreachable :: world where
  \<comment> \<open>no row to synchronise, and the mirror store cannot be reached\<close>
  "world_unreachable =
     \<lparr> SUPABASE_URL = Some ''https://mirror.example'', SUPABASE_KEY = Some ''key'',
       catalog_rows = DbRows [], now_iso = sample_clock,
       delete_resp = Raised ''connection refused'', post_resp = second_fails \<rparr>"

definition db_down :: "string \<Rightarrow> string list \<Rightarrow> query_result" where
  "db_down q ps = QueryError ''timeout''"

definition two_terms :: "string list" where
  "two_terms = [''martillo'', ''clavo'']"

definition two_terms_request :: request where
  \<comment> \<open>\<open>GET /search-multi?token=secret&query=martillo,clavo\<close>\<close>
  "two_terms_request = \<lparr> token_arg = Some ''secret'', query_arg = Some ''martillo,clavo'' \<rparr>"

definition free_first_match :: row_facts where
  \<comment> \<open>a row whose description matches the first pattern only and whose price is not
      positive\<close>
  "free_first_match = \<lparr> matches = (\<lambda>k. k = 0), price_positive = False \<rparr>"

section \<open>Keyword extraction\<close>

lemma fold_add_variant: "fold add_variant ws S = S \<union> spec_variant ` set ws"
  by (induction ws arbitrary: S) (auto simp: add_variant_def spec_variant_def)

lemma normalize_text_empty: "normalize_text None = []" "normalize_text (Some []) = []"
  by (simp_all add: normalize_text_def)

lemma keywords_of_empty: "keywords_of None = []" "keywords_of (Some []) = []"
  by (simp_all add: keywords_of_def normalize_text_empty)

lemma extract_keywords_eq:
  "extract_keywords d = set (keywords_of d) \<union> spec_variant ` set (keywords_of d)"
  by (cases d) (simp_all add: extract_keywords_def fold_add_variant keywords_of_empty Let_def)

text \<open>
  C5: for every description, \<open>extract_keywords\<close> returns the set made of the tokens of the
  normalized text (maximal runs of word characters) that are longer than 2 and are not one
  of the stop words \<open>de, la, el, en, con, para, por, un, una, y, o, del, las, los\<close>,
  together with the variant of each of them. The keywords of \<open>"Tornillos de Acero"\<close> are
  \<open>tornillo\<close>, \<open>tornillos\<close>, \<open>acero\<close> and \<open>aceros\<close>, without \<open>de\<close>. The stop words of
  three letters and more give no keyword; \<open>gas\<close> gets an \<open>s\<close> and \<open>tres\<close> loses
  its own; a token of two characters is dropped and one of three is kept.
\<close>

theorem extract_keywords_spec:
  "extract_keywords d =
     (let kept = filter (\<lambda>w. length w > 2
                           \<and> w \<notin> {''de'', ''la'', ''el'', ''en'', ''con'', ''para'', ''por'', ''un'',
                                  ''una'', ''y'', ''o'', ''del'', ''las'', ''los''})
                   (re_findall_words [] (normalize_text d))
      in set kept \<union> spec_variant ` set kept)
   \<and> {''tornillo'', ''tornillos'', ''acero'', ''aceros''}
        \<subseteq> extract_keywords (Some ''Tornillos de Acero'')
   \<and> ''de'' \<notin> extract_keywords (Some ''Tornillos de Acero'')
   \<and> extract_keywords (Some ''Tornillos de Acero'')
       = {''tornillos'', ''tornillo'', ''acero'', ''aceros''}
   \<and> extract_keywords (Some ''Clavos con para por una del las los'') = {''clavos'', ''clavo''}
   \<and> extract_keywords (Some ''de la el en un y o'') = {}
   \<and> extract_keywords (Some ''Gas tres'') = {''gas'', ''gass'', ''tres'', ''tre''}
   \<and> extract_keywords (Some ''PVC de 20 mm'') = {''pvc'', ''pvcs''}"
proof -
  have ex1: "extract_keywords (Some ''Tornillos de Acero'')
               = {''tornillos'', ''tornillo'', ''acero'', ''aceros''}"
    by code_simp
  have ex2: "extract_keywords (Some ''Clavos con para por una del las los'')
               = {''clavos'', ''clavo''}"
    by code_simp
  have ex3: "extract_keywords (Some ''de la el en un y o'') = {}"
    by code_simp
  have ex4: "extract_keywords (Some ''Gas tres'') = {''gas'', ''gass'', ''tres'', ''tre''}"
    by code_simp
  have ex5: "extract_keywords (Some ''PVC de 20 mm'') = {''pvc'', ''pvcs''}"
    by code_simp
  have gen: "extract_keywords d =
     (let kept = filter (\<lambda>w. length w > 2
                           \<and> w \<notin> {''de'', ''la'', ''el'', ''en'', ''con'', ''para'', ''por'', ''un'',
                                  ''una'', ''y'', ''o'', ''del'', ''las'', ''los''})
                   (re_findall_words [] (normalize_text d))
      in set kept \<union> spec_variant ` set kept)"
    using extract_keywords_eq [of d] by (simp only: keywords_of_def stop_words_def Let_def)
  have sub: "{''tornillo'', ''tornillos'', ''acero'', ''aceros''}
               \<subseteq> extract_keywords (Some ''Tornillos de Acero'')"
    unfolding ex1 by blast
  have nde: "''de'' \<notin> extract_keywords (Some ''Tornillos de Acero'')"
    unfolding ex1 by simp
  from gen sub nde ex1 ex2 ex3 ex4 ex5 show ?thesis by (intro conjI)
qed

text \<open>
  C10: for every description, the number of distinct keywords that \<open>extract_keywords\<close>
  returns is at most twice the number of tokens of the normalized description that are
  longer than 2 and are not stop words.
\<close>

theorem extract_keywords_card:
  "card (extract_keywords d)
     \<le> 2 * length (filter (\<lambda>w. length w > 2 \<and> w \<notin> stop_words)
                      (re_findall_words [] (normalize_text d)))"
proof -
  let ?ks = "keywords_of d"
  have "card (extract_keywords d) \<le> card (set ?ks) + card (spec_variant ` set ?ks)"
    unfolding extract_keywords_eq by (rule card_Un_le)
  also have "\<dots> \<le> card (set ?ks) + card (set ?ks)"
    by (simp add: card_image_le)
  also have "\<dots> \<le> 2 * length ?ks"
    using card_length [of ?ks] by simp
  finally show ?thesis by (simp add: keywords_of_def)
qed

section \<open>The search endpoint: token check and validation\<close>

text \<open>
  C3: the token check of \<open>search_multi\<close> passes (the answer is not 403) exactly when the
  \<open>token\<close> parameter equals the value of \<open>API_TOKEN\<close>. When \<open>API_TOKEN\<close> is not set and the
  request has no \<open>token\<close> parameter, both are \<open>None\<close> and the request is not rejected
  with 403.
\<close>

theorem search_multi_token_check:
  "(fst (fst (search_multi api_token db req)) \<noteq> 403) = (token_arg req = api_token)
   \<and> fst (fst (search_multi None db (req\<lparr>token_arg := None\<rparr>))) \<noteq> 403"
  by (simp add: search_multi_def Let_def split: query_result.splits)

text \<open>
  C6, as stated, fails on a request whose token is wrong: the token check comes first and
  answers 403, whatever the \<open>query\<close> parameter is.
\<close>

theorem search_multi_validation_counterexample:
  "query_arg \<lparr>token_arg = Some ''guess'', query_arg = None\<rparr> = None
   \<and> search_multi (Some ''secret'') db_down \<lparr>token_arg = Some ''guess'', query_arg = None\<rparr>
       = ((403, Abort_Body ''Unauthorized''), [])"
  by (simp add: search_multi_def)

text \<open>
  C6, amended: for every request that passes the token check, if the \<open>query\<close> parameter is
  missing or blank after trimming, \<open>search_multi\<close> answers 400 with the error
  \<open>Query parameter is required.\<close>; if it is not blank and splitting it at the commas
  leaves no term that is non-empty after trimming, it answers 400 with the error
  \<open>No valid terms provided.\<close>. In both cases the trace is empty: no connection to the
  database is opened and no query is run.
\<close>

theorem search_multi_validation:
  assumes "token_arg req = api_token"
  shows "(py_strip (query_text req) = [] \<longrightarrow>
            search_multi api_token db req
              = ((400, Error_Body ''Query parameter is required.''), []))
       \<and> (py_strip (query_text req) \<noteq> []
          \<and> list_all (\<lambda>t. py_strip t = []) (py_split (CHR '','') (py_strip (query_text req))) \<longrightarrow>
            search_multi api_token db req
              = ((400, Error_Body ''No valid terms provided.''), []))"
  using assms
  by (auto simp: search_multi_def Let_def filter_empty_conv list_all_iff)

theorem search_multi_validation_witness:
  "search_multi (Some ''secret'') db_down \<lparr>token_arg = Some ''secret'', query_arg = Some ''   ''\<rparr>
     = ((400, Error_Body ''Query parameter is required.''), [])
   \<and> search_multi (Some ''secret'') db_down \<lparr>token_arg = Some ''secret'', query_arg = Some '' , ,''\<rparr>
     = ((400, Error_Body ''No valid terms provided.''), [])"
proof -
  have 1: "py_strip (query_text \<lparr>token_arg = Some ''secret'', query_arg = Some ''   ''\<rparr>) = []"
    by code_simp
  have 2: "py_strip (query_text \<lparr>token_arg = Some ''secret'', query_arg = Some '' , ,''\<rparr>) \<noteq> []
           \<and> list_all (\<lambda>t. py_strip t = [])
                (py_split (CHR '','')
                   (py_strip (query_text \<lparr>token_arg = Some ''secret'', query_arg = Some '' , ,''\<rparr>)))"
    by code_simp
  show ?thesis
    using search_multi_validation
            [of "\<lparr>token_arg = Some ''secret'', query_arg = Some ''   ''\<rparr>" "Some ''secret''" db_down]
          search_multi_validation
            [of "\<lparr>token_arg = Some ''secret'', query_arg = Some '' , ,''\<rparr>" "Some ''secret''" db_down]
          1 2
    by simp
qed
section \<open>Synchronisation: batches\<close>

declare insert_batches.simps [simp del] batches.simps [simp del]

subsection \<open>batches\<close>

lemma batches_Nil [simp]: "batches n [] = []"
  by (simp add: batches.simps)

lemma batches_Cons: "0 < n \<Longrightarrow> xs \<noteq> [] \<Longrightarrow> batches n xs = take n xs # batches n (drop n xs)"
  by (subst batches.simps) simp

lemma concat_batches: "0 < n \<Longrightarrow> concat (batches n xs) = xs"
proof (induction n xs rule: batches.induct)
  case (1 n xs)
  then show ?case by (cases "xs = []") (simp_all add: batches_Cons)
qed

lemma batches_bounds: "b \<in> set (batches n xs) \<Longrightarrow> b \<noteq> [] \<and> length b \<le> n"
proof (induction n xs rule: batches.induct)
  case (1 n xs)
  show ?case
  proof (cases "n = 0 \<or> xs = []")
    case True
    with "1.prems" show ?thesis by (auto simp: batches.simps)
  next
    case False
    with "1.prems" have "b = take n xs \<or> b \<in> set (batches n (drop n xs))"
      by (simp add: batches_Cons)
    with False "1.IH" show ?thesis by auto
  qed
qed

lemma batches_full: "Suc j < length (batches n xs) \<Longrightarrow> length (batches n xs ! j) = n"
proof (induction n xs arbitrary: j rule: batches.induct)
  case (1 n xs)
  show ?case
  proof (cases "n = 0 \<or> xs = []")
    case True
    with "1.prems" show ?thesis by (auto simp: batches.simps)
  next
    case False
    then have eq: "batches n xs = take n xs # batches n (drop n xs)"
      by (simp add: batches_Cons)
    show ?thesis
    proof (cases j)
      case 0
      from "1.prems" eq have "batches n (drop n xs) \<noteq> []" by auto
      then have "drop n xs \<noteq> []" by auto
      then have "n < length xs" by simp
      with 0 eq show ?thesis by simp
    next
      case (Suc j')
      with "1.prems" eq have "Suc j' < length (batches n (drop n xs))" by simp
      with "1.IH" False have "length (batches n (drop n xs) ! j') = n" by blast
      with Suc eq show ?thesis by simp
    qed
  qed
qed

lemma batches_2500:
  assumes "length xs = 2500"
  shows "map length (batches 1000 xs) = [1000, 1000, 500]"
proof -
  have 1: "batches 1000 xs = take 1000 xs # batches 1000 (drop 1000 xs)"
    using assms by (intro batches_Cons) auto
  have 2: "batches 1000 (drop 1000 xs)
             = take 1000 (drop 1000 xs) # batches 1000 (drop 1000 (drop 1000 xs))"
    using assms by (intro batches_Cons) auto
  have 3: "batches 1000 (drop 1000 (drop 1000 xs))
             = take 1000 (drop 1000 (drop 1000 xs))
               # batches 1000 (drop 1000 (drop 1000 (drop 1000 xs)))"
    using assms by (intro batches_Cons) auto
  have 4: "drop 1000 (drop 1000 (drop 1000 xs)) = []"
    using assms by simp
  show ?thesis
    unfolding 1 2 3 4 using assms by simp
qed

subsection \<open>send_batches\<close>

lemma send_batches_all:
  "(\<forall>j<length bs. accepted (post (m + j) (bs ! j))) \<Longrightarrow> send_batches post m bs = (True, bs)"
proof (induction bs arbitrary: m)
  case Nil
  then show ?case by simp
next
  case (Cons b bs)
  from Cons.prems have "accepted (post m b)" by force
  moreover have "\<forall>j<length bs. accepted (post (Suc m + j) (bs ! j))"
    using Cons.prems by force
  ultimately show ?case using Cons.IH [of "Suc m"] by simp
qed

lemma send_batches_first_failure:
  "k < length bs \<Longrightarrow> (\<forall>j<k. accepted (post (m + j) (bs ! j))) \<Longrightarrow>
   \<not> accepted (post (m + k) (bs ! k)) \<Longrightarrow> send_batches post m bs = (False, take (Suc k) bs)"
proof (induction bs arbitrary: m k)
  case Nil
  then show ?case by simp
next
  case (Cons b bs)
  show ?case
  proof (cases k)
    case 0
    with Cons.prems show ?thesis by simp
  next
    case (Suc k')
    from Cons.prems Suc have "accepted (post m b)" by force
    moreover have "k' < length bs" using Cons.prems Suc by simp
    moreover have "\<forall>j<k'. accepted (post (Suc m + j) (bs ! j))"
      using Cons.prems(2) Suc by force
    moreover have "\<not> accepted (post (Suc m + k') (bs ! k'))"
      using Cons.prems(3) Suc by simp
    ultimately show ?thesis using Cons.IH [of k' "Suc m"] Suc by simp
  qed
qed

lemma send_batches_prefix:
  "snd (send_batches post m bs) = take (length (snd (send_batches post m bs))) bs"
proof (induction bs arbitrary: m)
  case Nil
  then show ?case by simp
next
  case (Cons b bs)
  obtain ok sent where s: "send_batches post (Suc m) bs = (ok, sent)"
    by (cases "send_batches post (Suc m) bs") auto
  with Cons.IH [of "Suc m"] have "sent = take (length sent) bs" by simp
  with s show ?case by simp
qed

lemma send_batches_refused:
  "k < length bs \<Longrightarrow> \<not> accepted (post (m + k) (bs ! k)) \<Longrightarrow>
   \<not> fst (send_batches post m bs) \<and> length (snd (send_batches post m bs)) \<le> Suc k"
proof (induction bs arbitrary: m k)
  case Nil
  then show ?case by simp
next
  case (Cons b bs)
  show ?case
  proof (cases k)
    case 0
    with Cons.prems show ?thesis by simp
  next
    case (Suc k')
    with Cons.prems have "k' < length bs" "\<not> accepted (post (Suc m + k') (bs ! k'))"
      by simp_all
    from Cons.IH [OF this] Suc show ?thesis
      by (auto split: prod.splits)
  qed
qed

subsection \<open>insert_batches\<close>

lemma posts_simps [simp]:
  "posts [] = []"
  "posts (Http_Post b # evs) = b # posts evs"
  "posts (Print_BatchOk a c # evs) = posts evs"
  "posts (Print_BatchError a s t # evs) = posts evs"
  "posts (Print_SyncError e # evs) = posts evs"
  "posts (Print_Completed n # evs) = posts evs"
  "posts (Print_DeleteError s t # evs) = posts evs"
  "posts (Http_Delete # evs) = posts evs"
  "posts (Print_Start # evs) = posts evs"
  "posts (Db_Connect # evs) = posts evs"
  "posts (Print_Read n # evs) = posts evs"
  by (simp_all add: posts_def)

lemma posts_append [simp]: "posts (xs @ ys) = posts xs @ posts ys"
  by (simp add: posts_def)

lemma insert_batches_send:
  "i = m * batch_size \<Longrightarrow>
   (fst (insert_batches post products i n), posts (snd (snd (insert_batches post products i n))))
     = send_batches post m (batches batch_size (drop i products))"
proof (induction post products i n arbitrary: m rule: insert_batches.induct)
  case (1 post products i n)
  show ?case
  proof (cases "i < length products")
    case False
    then show ?thesis by (subst (1 2) insert_batches.simps) simp
  next
    case True
    define batch where "batch = take batch_size (drop i products)"
    have pos: "0 < batch_size" by (simp add: batch_size_def)
    have idx: "i div batch_size = m" using "1.prems" pos by simp
    have bs: "batches batch_size (drop i products)
                = batch # batches batch_size (drop (i + batch_size) products)"
      using True pos by (simp add: batches_Cons batch_def add.commute)
    show ?thesis
    proof (cases "post m batch")
      case (Raised e)
      then show ?thesis
        using True idx bs
        by (subst (1 2) insert_batches.simps) (simp add: batch_def [symmetric] accepted_def)
    next
      case (Response status msg)
      show ?thesis
      proof (cases "insert_ok status")
        case False
        then show ?thesis
          using True idx bs Response
          by (subst (1 2) insert_batches.simps) (simp add: batch_def [symmetric] accepted_def)
      next
        case ok: True
        have "i + batch_size = Suc m * batch_size" using "1.prems" by simp
        from "1.IH" [OF True batch_def [unfolded batch_def] _ ok this, of msg] Response idx
        have IH: "(fst (insert_batches post products (i + batch_size) (n + length batch)),
                   posts (snd (snd (insert_batches post products (i + batch_size) (n + length batch)))))
                  = send_batches post (Suc m) (batches batch_size (drop (i + batch_size) products))"
          by (simp add: batch_def)
        show ?thesis
          using True idx bs Response ok IH [symmetric]
          by (subst (1 2) insert_batches.simps)
             (simp add: batch_def [symmetric] accepted_def split: prod.splits)
      qed
    qed
  qed
qed


lemma batch_event_simps [simp]:
  "batch_event (Http_Post b)" "batch_event (Print_BatchOk k l)"
  "batch_event (Print_BatchError k s t)" "batch_event (Print_SyncError m)"
  by (simp_all add: batch_event_def)

lemma insert_batches_events: "list_all batch_event (snd (snd (insert_batches post products i n)))"
proof (induction post products i n rule: insert_batches.induct)
  case (1 post products i n)
  show ?case
  proof (cases "i < length products")
    case False
    then show ?thesis by (subst insert_batches.simps) simp
  next
    case True
    show ?thesis
    proof (cases "post (i div batch_size) (take batch_size (drop i products))")
      case (Raised e)
      with True show ?thesis
        by (subst insert_batches.simps) simp
    next
      case (Response status msg)
      show ?thesis
      proof (cases "insert_ok status")
        case False
        with True Response show ?thesis
          by (subst insert_batches.simps) simp
      next
        case ok: True
        from "1.IH" [OF True refl Response ok] True Response ok show ?thesis
          by (subst insert_batches.simps) (auto split: prod.splits)
      qed
    qed
  qed
qed

lemma batch_events_http:
  "list_all batch_event evs \<Longrightarrow> filter is_http evs = map Http_Post (posts evs)"
  by (induction evs)
     (auto simp: batch_event_def is_http_def is_delete_def is_post_def posts_def
           split: event.splits)

lemma batch_events_no_delete_error:
  "list_all batch_event evs \<Longrightarrow> filter (\<lambda>e. \<not> is_delete_error e) evs = evs"
  by (induction evs) (auto simp: batch_event_def is_delete_error_def split: event.splits)

lemma batch_events_no_delete:
  "list_all batch_event evs \<Longrightarrow> filter is_delete evs = []"
  by (induction evs) (auto simp: batch_event_def is_delete_def split: event.splits)

lemma insert_batches_Nil: "insert_batches post [] 0 0 = (True, 0, [])"
  by (subst insert_batches.simps) simp

lemma sync_run:
  assumes "configured w" and "catalog_rows w = DbRows rows"
    and "delete_resp w = Response status msg"
  shows "sync_catalog_to_supabase w =
           (let r = insert_batches (post_resp w) (map (enrich (now_iso w)) (enumerate 0 rows)) 0 0
            in (fst r,
                [Print_Start, Db_Connect, Print_Read (length rows), Http_Delete]
                @ (if delete_ok status then [] else [Print_DeleteError status msg])
                @ snd (snd r)
                @ (if fst r then [Print_Completed (fst (snd r))] else [])))"
  using assms
  by (simp add: sync_catalog_to_supabase_def configured_def Let_def split: prod.splits)

lemma sync_cases:
  "(fst (sync_catalog_to_supabase w), filter is_http (snd (sync_catalog_to_supabase w)),
    filter is_delete (snd (sync_catalog_to_supabase w)), posts (snd (sync_catalog_to_supabase w)))
   = (if configured w then
        (case catalog_rows w of
           DbError e \<Rightarrow> (False, [], [], [])
         | DbRows rows \<Rightarrow>
             (case delete_resp w of
                Raised e \<Rightarrow> (False, [Http_Delete], [Http_Delete], [])
              | Response status msg \<Rightarrow>
                  (case send_batches (post_resp w) 0
                          (batches batch_size (map (enrich (now_iso w)) (enumerate 0 rows))) of
                     (ok, sent) \<Rightarrow> (ok, Http_Delete # map Http_Post sent, [Http_Delete], sent))))
      else (False, [], [], []))"
proof (cases "configured w")
  case False
  then show ?thesis
    by (auto simp: sync_catalog_to_supabase_def configured_def is_http_def is_delete_def
                   is_post_def posts_def)
next
  case conf: True
  show ?thesis
  proof (cases "catalog_rows w")
    case (DbError e)
    with conf show ?thesis
      by (simp add: sync_catalog_to_supabase_def configured_def is_http_def is_delete_def
                    is_post_def)
  next
    case (DbRows rows)
    show ?thesis
    proof (cases "delete_resp w")
      case (Raised e)
      with conf DbRows show ?thesis
        by (simp add: sync_catalog_to_supabase_def configured_def is_http_def is_delete_def
                      is_post_def)
    next
      case (Response status msg)
      let ?products = "map (enrich (now_iso w)) (enumerate 0 rows)"
      let ?r = "insert_batches (post_resp w) ?products 0 0"
      have send: "(fst ?r, posts (snd (snd ?r)))
                    = send_batches (post_resp w) 0 (batches batch_size ?products)"
        using insert_batches_send [of 0 0 "post_resp w" ?products 0] by simp
      have ev: "list_all batch_event (snd (snd ?r))"
        by (rule insert_batches_events)
      have http: "filter is_http (snd (snd ?r)) = map Http_Post (posts (snd (snd ?r)))"
        by (rule batch_events_http [OF ev])
      have nodel: "filter is_delete (snd (snd ?r)) = []"
        by (rule batch_events_no_delete [OF ev])
      show ?thesis
        unfolding sync_run [OF conf DbRows Response]
        using conf DbRows Response send [symmetric] http nodel
        by (simp add: Let_def is_http_def is_delete_def is_post_def split: prod.splits)
    qed
  qed
qed

text \<open>
  C2: the insert calls of a run of the pipeline carry the enriched products in fixed-size
  batches of 1000 records: the batches are consecutive pieces of the product list, none
  empty, all of 1000 records except possibly the last (2500 products give 1000, 1000,
  500), and the calls of the run are an initial part of that list of batches, in order. If
  the insert call of a batch is not accepted, the pipeline returns failure and no later
  batch is sent. The delete comes before every insert: nothing that was inserted is
  removed again. In a run that reaches the insertion phase (the pipeline is configured
  and the delete call came back with a response), the batches up to the first one that is
  not accepted are sent, and if all are accepted all are sent and the pipeline returns
  success.
\<close>

theorem sync_batches:
  assumes "catalog_rows w = DbRows rows"
    and "products = map (enrich (now_iso w)) (enumerate 0 rows)"
    and "bs = batches 1000 products"
    and "sent = posts (snd (sync_catalog_to_supabase w))"
  shows "batch_size = 1000
    \<and> concat bs = products
    \<and> (\<forall>b\<in>set bs. b \<noteq> [] \<and> length b \<le> 1000)
    \<and> (\<forall>j. Suc j < length bs \<longrightarrow> length (bs ! j) = 1000)
    \<and> (length products = 2500 \<longrightarrow> map length bs = [1000, 1000, 500])
    \<and> sent = take (length sent) bs
    \<and> (\<forall>k<length bs. \<not> accepted (post_resp w k (bs ! k)) \<longrightarrow>
          \<not> fst (sync_catalog_to_supabase w) \<and> length sent \<le> Suc k)
    \<and> filter is_http (snd (sync_catalog_to_supabase w))
        = filter is_delete (snd (sync_catalog_to_supabase w)) @ map Http_Post sent
    \<and> (configured w \<and> (\<exists>status msg. delete_resp w = Response status msg) \<longrightarrow>
          (\<forall>k<length bs.
             (\<forall>j<k. accepted (post_resp w j (bs ! j))) \<and> \<not> accepted (post_resp w k (bs ! k)) \<longrightarrow>
             sent = take (Suc k) bs)
          \<and> ((\<forall>j<length bs. accepted (post_resp w j (bs ! j))) \<longrightarrow>
               fst (sync_catalog_to_supabase w) \<and> sent = bs))"
proof -
  let ?sync = "sync_catalog_to_supabase w"
  let ?send = "send_batches (post_resp w) 0 bs"
  let ?reached = "configured w \<and> (\<exists>status msg. delete_resp w = Response status msg)"
  have bs: "batches batch_size (map (enrich (now_iso w)) (enumerate 0 rows)) = bs"
    using assms(2,3) by (simp add: batch_size_def)
  have reached: "fst ?sync = fst ?send \<and> sent = snd ?send
                 \<and> filter is_http (snd ?sync) = Http_Delete # map Http_Post sent
                 \<and> filter is_delete (snd ?sync) = [Http_Delete]"
    if ?reached
  proof -
    from that obtain status msg where c: "configured w" and d: "delete_resp w = Response status msg"
      by blast
    obtain ok snt where s: "?send = (ok, snt)" by (cases ?send) auto
    from sync_cases [of w] show ?thesis
      by (simp add: c d assms(1) bs s assms(4))
  qed
  have stopped: "\<not> fst ?sync \<and> sent = []
                 \<and> filter is_http (snd ?sync) = filter is_delete (snd ?sync)"
    if "\<not> ?reached"
  proof (cases "configured w")
    case False
    with sync_cases [of w] show ?thesis by (simp add: assms(4))
  next
    case True
    with that obtain e where "delete_resp w = Raised e"
      by (cases "delete_resp w") auto
    with True sync_cases [of w] show ?thesis by (simp add: assms(1,4))
  qed
  have 0: "batch_size = 1000" by (simp add: batch_size_def)
  have 1: "concat bs = products"
    using assms(3) by (simp add: concat_batches)
  have 2: "\<forall>b\<in>set bs. b \<noteq> [] \<and> length b \<le> 1000"
    using assms(3) batches_bounds by blast
  have 3: "\<forall>j. Suc j < length bs \<longrightarrow> length (bs ! j) = 1000"
    using assms(3) batches_full by blast
  have 4: "length products = 2500 \<longrightarrow> map length bs = [1000, 1000, 500]"
    using assms(3) batches_2500 by blast
  have 5: "sent = take (length sent) bs"
  proof (cases ?reached)
    case True
    from reached [OF this] send_batches_prefix [of "post_resp w" 0 bs] show ?thesis
      by simp
  next
    case False
    from stopped [OF this] show ?thesis by simp
  qed
  have 6: "\<forall>k<length bs. \<not> accepted (post_resp w k (bs ! k)) \<longrightarrow>
             \<not> fst ?sync \<and> length sent \<le> Suc k"
  proof (intro allI impI)
    fix k
    assume k: "k < length bs" "\<not> accepted (post_resp w k (bs ! k))"
    show "\<not> fst ?sync \<and> length sent \<le> Suc k"
    proof (cases ?reached)
      case True
      from reached [OF this] send_batches_refused [of k bs "post_resp w" 0] k show ?thesis
        by simp
    next
      case False
      from stopped [OF this] show ?thesis by simp
    qed
  qed
  have 7: "filter is_http (snd ?sync) = filter is_delete (snd ?sync) @ map Http_Post sent"
  proof (cases ?reached)
    case True
    from reached [OF this] show ?thesis by simp
  next
    case False
    from stopped [OF this] show ?thesis by simp
  qed
  have 8: "?reached \<longrightarrow>
          (\<forall>k<length bs.
             (\<forall>j<k. accepted (post_resp w j (bs ! j))) \<and> \<not> accepted (post_resp w k (bs ! k)) \<longrightarrow>
             sent = take (Suc k) bs)
          \<and> ((\<forall>j<length bs. accepted (post_resp w j (bs ! j))) \<longrightarrow>
               fst ?sync \<and> sent = bs)"
  proof (intro impI conjI allI)
    fix k
    assume r: ?reached and k: "k < length bs"
      and f: "(\<forall>j<k. accepted (post_resp w j (bs ! j))) \<and> \<not> accepted (post_resp w k (bs ! k))"
    from reached [OF r] send_batches_first_failure [of k bs "post_resp w" 0] k f
    show "sent = take (Suc k) bs" by simp
  next
    assume r: ?reached and a: "\<forall>j<length bs. accepted (post_resp w j (bs ! j))"
    from reached [OF r] send_batches_all [of bs "post_resp w" 0] a
    show "fst ?sync" by simp
  next
    assume r: ?reached and a: "\<forall>j<length bs. accepted (post_resp w j (bs ! j))"
    from reached [OF r] send_batches_all [of bs "post_resp w" 0] a
    show "sent = bs" by simp
  qed
  from 0 1 2 3 4 5 6 7 8 show ?thesis by (intro conjI)
qed

theorem sync_batches_witness:
  "configured world_2500
   \<and> \<not> fst (sync_catalog_to_supabase world_2500)
   \<and> length (posts (snd (sync_catalog_to_supabase world_2500))) = 2"
proof -
  define products where
    "products = map (enrich (now_iso world_2500)) (enumerate 0 (replicate 2500 sample_row))"
  define bs where "bs = batches 1000 products"
  define sent where "sent = posts (snd (sync_catalog_to_supabase world_2500))"
  have c: "configured world_2500"
    by (simp add: configured_def falsy_def world_2500_def)
  have r: "catalog_rows world_2500 = DbRows (replicate 2500 sample_row)"
    by (simp add: world_2500_def)
  have d: "\<exists>status msg. delete_resp world_2500 = Response status msg"
    by (simp add: world_2500_def)
  note th = sync_batches [OF r products_def bs_def sent_def]
  have "length products = 2500" by (simp add: products_def)
  with th have "map length bs = [1000, 1000, 500]" by blast
  then have "length (map length bs) = 3" by simp
  then have l3: "length bs = 3" by simp
  have p: "post_resp world_2500 = second_fails" by (simp add: world_2500_def)
  have a0: "\<forall>j<1. accepted (post_resp world_2500 j (bs ! j))"
    by (simp add: p second_fails_def accepted_def insert_ok_def)
  have a1: "\<not> accepted (post_resp world_2500 1 (bs ! 1))"
    by (simp add: p second_fails_def accepted_def insert_ok_def)
  from th have "\<forall>k<length bs. \<not> accepted (post_resp world_2500 k (bs ! k)) \<longrightarrow>
          \<not> fst (sync_catalog_to_supabase world_2500) \<and> length sent \<le> Suc k"
    by blast
  from this [rule_format, of 1] l3 a1 have f: "\<not> fst (sync_catalog_to_supabase world_2500)"
    by simp
  from th c d have "\<forall>k<length bs.
             (\<forall>j<k. accepted (post_resp world_2500 j (bs ! j)))
             \<and> \<not> accepted (post_resp world_2500 k (bs ! k)) \<longrightarrow>
             sent = take (Suc k) bs"
    by blast
  from this [rule_format, of 1] l3 a0 a1 have "sent = take (Suc 1) bs"
    by simp
  with l3 have "length sent = 2" by simp
  with c f show ?thesis by (simp add: sent_def)
qed

lemma send_batches_first:
  "bs \<noteq> [] \<Longrightarrow> snd (send_batches post m bs) \<noteq> [] \<and> hd (snd (send_batches post m bs)) = hd bs"
  by (cases bs) (auto split: prod.splits)

lemma batches_first:
  "0 < n \<Longrightarrow> xs \<noteq> [] \<Longrightarrow> batches n xs \<noteq> [] \<and> hd (batches n xs) = take n xs"
  by (simp add: batches_Cons)

lemma sync_after_delete:
  assumes "configured w" and "catalog_rows w = DbRows rows"
  shows "(fst (sync_catalog_to_supabase (w\<lparr>delete_resp := Response status msg\<rparr>)),
          posts (snd (sync_catalog_to_supabase (w\<lparr>delete_resp := Response status msg\<rparr>))))
         = send_batches (post_resp w) 0
             (batches 1000 (map (enrich (now_iso w)) (enumerate 0 rows)))
         \<and> Http_Delete # map Http_Post
              (posts (snd (sync_catalog_to_supabase (w\<lparr>delete_resp := Response status msg\<rparr>))))
           = filter is_http (snd (sync_catalog_to_supabase (w\<lparr>delete_resp := Response status msg\<rparr>)))"
proof -
  let ?w = "w\<lparr>delete_resp := Response status msg\<rparr>"
  have c: "configured ?w" using assms(1) by (simp add: configured_def)
  obtain ok snt where s: "send_batches (post_resp w) 0
             (batches 1000 (map (enrich (now_iso w)) (enumerate 0 rows))) = (ok, snt)"
    by (cases "send_batches (post_resp w) 0
             (batches 1000 (map (enrich (now_iso w)) (enumerate 0 rows)))") auto
  from sync_cases [of ?w] show ?thesis
    by (simp add: c assms(2) s batch_size_def)
qed

lemma sync_delete_status_trace:
  "fst (sync_catalog_to_supabase (w\<lparr>delete_resp := Response status msg\<rparr>))
     = fst (sync_catalog_to_supabase (w\<lparr>delete_resp := Response 204 []\<rparr>))
   \<and> filter (\<lambda>e. \<not> is_delete_error e)
        (snd (sync_catalog_to_supabase (w\<lparr>delete_resp := Response status msg\<rparr>)))
     = snd (sync_catalog_to_supabase (w\<lparr>delete_resp := Response 204 []\<rparr>))
   \<and> (configured w \<and> catalog_rows w = DbRows rows \<and> \<not> delete_ok status \<longrightarrow>
        Print_DeleteError status msg
          \<in> set (snd (sync_catalog_to_supabase (w\<lparr>delete_resp := Response status msg\<rparr>))))"
proof (cases "configured w")
  case False
  then show ?thesis
    by (auto simp: sync_catalog_to_supabase_def configured_def is_delete_error_def)
next
  case conf: True
  show ?thesis
  proof (cases "catalog_rows w")
    case (DbError e)
    with conf show ?thesis
      by (simp add: sync_catalog_to_supabase_def configured_def is_delete_error_def)
  next
    case (DbRows rs)
    let ?w1 = "w\<lparr>delete_resp := Response status msg\<rparr>"
    let ?w2 = "w\<lparr>delete_resp := Response 204 []\<rparr>"
    let ?r = "insert_batches (post_resp w) (map (enrich (now_iso w)) (enumerate 0 rs)) 0 0"
    have c1: "configured ?w1" and c2: "configured ?w2"
      using conf by (simp_all add: configured_def)
    have r1: "sync_catalog_to_supabase ?w1 =
                (fst ?r, [Print_Start, Db_Connect, Print_Read (length rs), Http_Delete]
                   @ (if delete_ok status then [] else [Print_DeleteError status msg])
                   @ snd (snd ?r) @ (if fst ?r then [Print_Completed (fst (snd ?r))] else []))"
      using sync_run [OF c1, of rs status msg] DbRows by (simp add: Let_def)
    have r2: "sync_catalog_to_supabase ?w2 =
                (fst ?r, [Print_Start, Db_Connect, Print_Read (length rs), Http_Delete]
                   @ snd (snd ?r) @ (if fst ?r then [Print_Completed (fst (snd ?r))] else []))"
      using sync_run [OF c2, of rs 204 "[]"] DbRows by (simp add: Let_def delete_ok_def)
    have keep: "filter (\<lambda>e. \<not> is_delete_error e) (snd (snd ?r)) = snd (snd ?r)"
      by (rule batch_events_no_delete_error [OF insert_batches_events])
    show ?thesis
      unfolding r1 r2 using keep DbRows by (simp add: is_delete_error_def)
  qed
qed

text \<open>
  C7: the status of the bulk delete changes neither the return value of the pipeline nor
  its trace, except for the log line about the failed delete: with any status the result
  is the one of a run whose delete answered 204, and the trace without that log line is
  the trace of that run. When the pipeline is configured and the source was read, a
  non-success status of the delete is logged, and the insertion phase follows whatever
  the status is: the HTTP calls of the run are the delete and then the insert calls; if
  there is a row, the first batch is sent; if every insert is accepted, all batches are
  sent and the pipeline returns success; otherwise the batches up to the first one that
  is not accepted are sent and it returns failure.
\<close>

theorem sync_delete_status_ignored:
  "fst (sync_catalog_to_supabase (w\<lparr>delete_resp := Response status msg\<rparr>))
     = fst (sync_catalog_to_supabase (w\<lparr>delete_resp := Response 204 []\<rparr>))
   \<and> filter (\<lambda>e. \<not> is_delete_error e)
        (snd (sync_catalog_to_supabase (w\<lparr>delete_resp := Response status msg\<rparr>)))
     = snd (sync_catalog_to_supabase (w\<lparr>delete_resp := Response 204 []\<rparr>))
   \<and> (configured w \<and> catalog_rows w = DbRows rows \<and> \<not> delete_ok status \<longrightarrow>
        Print_DeleteError status msg
          \<in> set (snd (sync_catalog_to_supabase (w\<lparr>delete_resp := Response status msg\<rparr>))))
   \<and> (configured w \<and> catalog_rows w = DbRows rows \<longrightarrow>
        (let products = map (enrich (now_iso w)) (enumerate 0 rows);
             bs = batches 1000 products;
             run = sync_catalog_to_supabase (w\<lparr>delete_resp := Response status msg\<rparr>);
             sent = posts (snd run)
         in filter is_http (snd run) = Http_Delete # map Http_Post sent
            \<and> (rows \<noteq> [] \<longrightarrow> sent \<noteq> [] \<and> hd sent = take 1000 products)
            \<and> ((\<forall>j<length bs. accepted (post_resp w j (bs ! j))) \<longrightarrow> fst run \<and> sent = bs)
            \<and> (\<forall>k<length bs.
                  (\<forall>j<k. accepted (post_resp w j (bs ! j))) \<and> \<not> accepted (post_resp w k (bs ! k)) \<longrightarrow>
                  \<not> fst run \<and> sent = take (Suc k) bs)))"
proof -
  let ?products = "map (enrich (now_iso w)) (enumerate 0 rows)"
  let ?bs = "batches 1000 ?products"
  let ?run = "sync_catalog_to_supabase (w\<lparr>delete_resp := Response status msg\<rparr>)"
  let ?sent = "posts (snd ?run)"
  have proceeds:
    "filter is_http (snd ?run) = Http_Delete # map Http_Post ?sent
     \<and> (rows \<noteq> [] \<longrightarrow> ?sent \<noteq> [] \<and> hd ?sent = take 1000 ?products)
     \<and> ((\<forall>j<length ?bs. accepted (post_resp w j (?bs ! j))) \<longrightarrow> fst ?run \<and> ?sent = ?bs)
     \<and> (\<forall>k<length ?bs.
           (\<forall>j<k. accepted (post_resp w j (?bs ! j))) \<and> \<not> accepted (post_resp w k (?bs ! k)) \<longrightarrow>
           \<not> fst ?run \<and> ?sent = take (Suc k) ?bs)"
    if c: "configured w" and r: "catalog_rows w = DbRows rows"
  proof -
    note after = sync_after_delete [OF c r, of status msg]
    from after have run: "fst ?run = fst (send_batches (post_resp w) 0 ?bs)"
      and sent: "?sent = snd (send_batches (post_resp w) 0 ?bs)"
      by (simp_all add: prod_eq_iff)
    have 1: "filter is_http (snd ?run) = Http_Delete # map Http_Post ?sent"
      using after by simp
    have 2: "?sent \<noteq> [] \<and> hd ?sent = take 1000 ?products" if "rows \<noteq> []"
    proof -
      from that have "length ?products \<noteq> 0" by simp
      then have "?products \<noteq> []" by (simp only: length_0_conv not_False_eq_True)
      then have "?bs \<noteq> [] \<and> hd ?bs = take 1000 ?products"
        by (intro batches_first) simp_all
      with send_batches_first [of ?bs "post_resp w" 0] sent show ?thesis by simp
    qed
    have 3: "fst ?run \<and> ?sent = ?bs" if "\<forall>j<length ?bs. accepted (post_resp w j (?bs ! j))"
      using send_batches_all [of ?bs "post_resp w" 0] that run sent by simp
    have 4: "\<not> fst ?run \<and> ?sent = take (Suc k) ?bs"
      if "k < length ?bs" "\<forall>j<k. accepted (post_resp w j (?bs ! j))"
         "\<not> accepted (post_resp w k (?bs ! k))" for k
      using send_batches_first_failure [of k ?bs "post_resp w" 0] that run sent by simp
    from 1 2 3 4 show ?thesis by blast
  qed
  from sync_delete_status_trace [where w = w and status = status and msg = msg and rows = rows] proceeds show ?thesis
    by (simp only: Let_def) blast
qed

theorem sync_delete_status_ignored_witness:
  "configured world_one
   \<and> \<not> delete_ok 500
   \<and> Print_DeleteError 500 ''down''
       \<in> set (snd (sync_catalog_to_supabase (world_one\<lparr>delete_resp := Response 500 ''down''\<rparr>)))
   \<and> fst (sync_catalog_to_supabase (world_one\<lparr>delete_resp := Response 500 ''down''\<rparr>))
       = fst (sync_catalog_to_supabase (world_one\<lparr>delete_resp := Response 204 []\<rparr>))
   \<and> fst (sync_catalog_to_supabase (world_one\<lparr>delete_resp := Response 500 ''down''\<rparr>))
   \<and> posts (snd (sync_catalog_to_supabase (world_one\<lparr>delete_resp := Response 500 ''down''\<rparr>)))
       = [[enrich sample_clock (0, sample_row)]]"
proof -
  let ?run = "sync_catalog_to_supabase (world_one\<lparr>delete_resp := Response 500 ''down''\<rparr>)"
  let ?p = "enrich sample_clock (0, sample_row)"
  have c: "configured world_one"
    by (simp add: configured_def falsy_def world_one_def)
  have r: "catalog_rows world_one = DbRows [sample_row]"
    by (simp add: world_one_def)
  have n: "\<not> delete_ok 500"
    by (simp add: delete_ok_def)
  have products: "map (enrich (now_iso world_one)) (enumerate 0 [sample_row]) = [?p]"
    by (simp add: world_one_def)
  have bs: "batches 1000 [?p] = [[?p]]"
    by (simp add: batches_Cons)
  have a: "\<forall>j<length [[?p]]. accepted (post_resp world_one j ([[?p]] ! j))"
    by (simp add: world_one_def second_fails_def accepted_def insert_ok_def)
  note th = sync_delete_status_ignored
         [where w = world_one and status = 500 and msg = "''down''" and rows = "[sample_row]"]
  from th c r n have logged: "Print_DeleteError 500 ''down'' \<in> set (snd ?run)"
    by blast
  from th have same: "fst ?run
       = fst (sync_catalog_to_supabase (world_one\<lparr>delete_resp := Response 204 []\<rparr>))"
    by blast
  from th c r have "(\<forall>j<length [[?p]]. accepted (post_resp world_one j ([[?p]] ! j)))
                     \<longrightarrow> fst ?run \<and> posts (snd ?run) = [[?p]]"
    by (simp only: Let_def products bs) blast
  with a have "fst ?run \<and> posts (snd ?run) = [[?p]]" by blast
  with c n logged same show ?thesis by (intro conjI) simp_all
qed

text \<open>
  C8, as stated, fails on a run where the source has no row and the delete call raises an
  exception (the mirror store cannot be reached): the delete is issued and no insert is,
  but the exception is caught and the pipeline returns failure.
\<close>

theorem sync_empty_catalog_counterexample:
  "configured world_unreachable
   \<and> catalog_rows world_unreachable = DbRows []
   \<and> sync_catalog_to_supabase world_unreachable
       = (False, [Print_Start, Db_Connect, Print_Read 0, Http_Delete,
                  Print_SyncError ''connection refused''])"
proof -
  have "sanitize_msg ''connection refused'' = ''connection refused''"
    by code_simp
  then show ?thesis
    by (simp add: sync_catalog_to_supabase_def configured_def falsy_def world_unreachable_def)
qed

text \<open>
  C8, amended: when the pipeline is configured and the source query returns no row, the
  bulk delete is issued and no insert call is made; the pipeline returns success exactly
  when the delete call comes back with a response, of whatever status, and then it
  reports 0 records.
\<close>

theorem sync_empty_catalog:
  assumes "configured w" and "catalog_rows w = DbRows []"
  shows "Http_Delete \<in> set (snd (sync_catalog_to_supabase w))
    \<and> posts (snd (sync_catalog_to_supabase w)) = []
    \<and> (fst (sync_catalog_to_supabase w) \<longleftrightarrow> (\<exists>status msg. delete_resp w = Response status msg))
    \<and> (\<forall>status msg. delete_resp w = Response status msg \<longrightarrow>
          sync_catalog_to_supabase w
            = (True, [Print_Start, Db_Connect, Print_Read 0, Http_Delete]
                     @ (if delete_ok status then [] else [Print_DeleteError status msg])
                     @ [Print_Completed 0]))"
  using assms
  by (cases "delete_resp w")
     (simp_all add: sync_catalog_to_supabase_def configured_def insert_batches_Nil enumerate_eq_zip)

theorem sync_empty_catalog_witness:
  "sync_catalog_to_supabase world_empty
     = (True, [Print_Start, Db_Connect, Print_Read 0, Http_Delete,
               Print_DeleteError 500 ''down'', Print_Completed 0])"
proof -
  have c: "configured world_empty"
    by (simp add: configured_def falsy_def world_empty_def)
  have r: "catalog_rows world_empty = DbRows []"
    by (simp add: world_empty_def)
  have d: "delete_resp world_empty = Response 500 ''down''"
    by (simp add: world_empty_def)
  from sync_empty_catalog [OF c r] d show ?thesis
    by (simp add: delete_ok_def)
qed
section \<open>Normalization\<close>

declare re_sub_spaces.simps [simp del] ws_fields.simps [simp del]

subsection \<open>Characters\<close>

lemma of_char_lower:
  "(of_char (py_lower_chr c) :: nat) =
     (let n = of_char c
      in if (65 \<le> n \<and> n \<le> 90) \<or> (192 \<le> n \<and> n \<le> 222 \<and> n \<noteq> 215) then n + 32 else n)"
  by (auto simp: py_lower_chr_def Let_def)

lemma py_lower_chr_idem: "py_lower_chr (py_lower_chr c) = py_lower_chr c"
proof -
  have "(of_char (py_lower_chr (py_lower_chr c)) :: nat) = of_char (py_lower_chr c)"
    by (auto simp: of_char_lower Let_def)
  then show ?thesis by simp
qed

lemma isspace_lower: "py_isspace (py_lower_chr c) = py_isspace c"
  by (auto simp: py_isspace_def of_char_lower Let_def)

lemma spec_unaccent_cases:
  "spec_unaccent c =
     (if c = CHR 0xE1 then CHR ''a'' else if c = CHR 0xE9 then CHR ''e''
      else if c = CHR 0xED then CHR ''i'' else if c = CHR 0xF3 then CHR ''o''
      else if c = CHR 0xFA then CHR ''u'' else if c = CHR 0xF1 then CHR ''n''
      else if c = CHR 0xFC then CHR ''u'' else c)"
  by (simp add: spec_unaccent_def replacements_def)

lemma isspace_unaccent: "py_isspace (spec_unaccent c) = py_isspace c"
  by (simp add: spec_unaccent_cases py_isspace_def)

lemma spec_unaccent_idem: "spec_unaccent (spec_unaccent c) = spec_unaccent c"
  by (simp add: spec_unaccent_cases)

lemma lower_plain:
  "py_lower_chr (CHR ''a'') = CHR ''a''" "py_lower_chr (CHR ''e'') = CHR ''e''"
  "py_lower_chr (CHR ''i'') = CHR ''i''" "py_lower_chr (CHR ''o'') = CHR ''o''"
  "py_lower_chr (CHR ''u'') = CHR ''u''" "py_lower_chr (CHR ''n'') = CHR ''n''"
  by (simp_all add: py_lower_chr_def)

lemma lower_unaccent_lower:
  "py_lower_chr (spec_unaccent (py_lower_chr c)) = spec_unaccent (py_lower_chr c)"
  by (simp add: spec_unaccent_cases [of "py_lower_chr c"] lower_plain py_lower_chr_idem)

lemma fold_chr_idem: "fold_chr (fold_chr c) = fold_chr c"
  by (simp add: fold_chr_def lower_unaccent_lower spec_unaccent_idem)

lemma isspace_fold_chr: "py_isspace (fold_chr c) = py_isspace c"
  by (simp add: fold_chr_def isspace_unaccent isspace_lower)

lemma fold_chr_space: "fold_chr (CHR '' '') = CHR '' ''"
  by (simp add: fold_chr_def spec_unaccent_cases py_lower_chr_def)

lemma fold_replacements:
  "fold (\<lambda>(old, new) s. py_replace old new s) replacements s = map spec_unaccent s"
  by (simp add: replacements_def py_replace_def spec_unaccent_cases)


subsection \<open>Fields\<close>

lemma ws_fields_Nil [simp]: "ws_fields [] = []"
  by (simp add: ws_fields.simps)

lemma ws_fields_space: "py_isspace c \<Longrightarrow> ws_fields (c # s) = ws_fields s"
  by (subst (1 2) ws_fields.simps) simp

lemma ws_fields_word:
  "\<not> py_isspace c \<Longrightarrow>
   ws_fields (c # s) = (c # takeWhile (\<lambda>x. \<not> py_isspace x) s)
                       # ws_fields (dropWhile (\<lambda>x. \<not> py_isspace x) s)"
  by (subst ws_fields.simps) simp

lemma ws_fields_blank:
  assumes "dropWhile py_isspace s = []"
  shows "ws_fields s = []"
  by (subst ws_fields.simps) (simp only: assms list.case)

lemma ws_fields_shape:
  "w \<in> set (ws_fields s) \<Longrightarrow> w \<noteq> [] \<and> (\<forall>c\<in>set w. \<not> py_isspace c)"
proof (induction s rule: ws_fields.induct)
  case (1 s)
  show ?case
  proof (cases "dropWhile py_isspace s")
    case Nil
    with "1.prems" show ?thesis by (simp add: ws_fields.simps [of s])
  next
    case (Cons c cs)
    then have c: "\<not> py_isspace c" by (metis hd_dropWhile list.sel(1) list.distinct(1))
    from "1.prems" Cons
    have "w = c # takeWhile (\<lambda>x. \<not> py_isspace x) cs
          \<or> w \<in> set (ws_fields (dropWhile (\<lambda>x. \<not> py_isspace x) cs))"
      by (simp add: ws_fields.simps [of s])
    then show ?thesis
    proof
      assume "w = c # takeWhile (\<lambda>x. \<not> py_isspace x) cs"
      with c show ?thesis by (auto dest: set_takeWhileD)
    next
      assume "w \<in> set (ws_fields (dropWhile (\<lambda>x. \<not> py_isspace x) cs))"
      with "1.IH" [OF Cons] show ?thesis by simp
    qed
  qed
qed

lemma py_join_nonempty: "ws \<noteq> [] \<Longrightarrow> hd ws \<noteq> [] \<Longrightarrow> py_join sep ws \<noteq> []"
  by (induction sep ws rule: py_join.induct) simp_all

lemma py_join_Cons: "ws \<noteq> [] \<Longrightarrow> py_join sep (w # ws) = w @ sep @ py_join sep ws"
  by (cases ws) simp_all

subsection \<open>Stripping\<close>

lemma py_rstrip_Nil_iff: "py_rstrip g = [] \<longleftrightarrow> (\<forall>c\<in>set g. py_isspace c)"
  by (simp add: py_rstrip_def)

lemma py_rstrip_append:
  "py_rstrip (a @ g) = (if py_rstrip g = [] then py_rstrip a else a @ py_rstrip g)"
  by (simp add: py_rstrip_Nil_iff) (simp add: py_rstrip_def dropWhile_append)

lemma py_rstrip_word: "w \<noteq> [] \<Longrightarrow> \<not> py_isspace (last w) \<Longrightarrow> py_rstrip w = w"
  by (cases w rule: rev_cases) (simp_all add: py_rstrip_def)

subsection \<open>Substitution of whitespace runs\<close>

lemma re_sub_spaces_Nil [simp]: "re_sub_spaces [] = []"
  by (simp add: re_sub_spaces.simps)

lemma re_sub_spaces_word:
  "\<forall>c\<in>set w. \<not> py_isspace c \<Longrightarrow> re_sub_spaces (w @ r) = w @ re_sub_spaces r"
  by (induction w) (simp_all add: re_sub_spaces.simps(2))

lemma lstrip_re_sub_spaces:
  "dropWhile py_isspace (re_sub_spaces s) = re_sub_spaces (dropWhile py_isspace s)"
proof -
  have start: "dropWhile py_isspace (re_sub_spaces d) = re_sub_spaces d"
    if "d = [] \<or> \<not> py_isspace (hd d)" for d
    using that by (cases d) (auto simp: re_sub_spaces.simps(2))
  show ?thesis
  proof (cases s)
    case Nil
    then show ?thesis by simp
  next
    case (Cons c cs)
    have "dropWhile py_isspace cs = [] \<or> \<not> py_isspace (hd (dropWhile py_isspace cs))"
      by (metis hd_dropWhile)
    from start [OF this] Cons show ?thesis
      by (auto simp: re_sub_spaces.simps(2) py_isspace_def)
  qed
qed


lemma rstrip_sub_fields:
  "py_rstrip (re_sub_spaces (dropWhile py_isspace s)) = py_join '' '' (ws_fields s)"
proof (induction s rule: ws_fields.induct)
  case (1 s)
  show ?case
  proof (cases "dropWhile py_isspace s")
    case Nil
    have "ws_fields s = []" using Nil by (rule ws_fields_blank)
    then show ?thesis unfolding Nil by (simp add: py_rstrip_def)
  next
    case (Cons c cs)
    define w where "w = c # takeWhile (\<lambda>x. \<not> py_isspace x) cs"
    define r where "r = dropWhile (\<lambda>x. \<not> py_isspace x) cs"
    have c: "\<not> py_isspace c"
      using Cons by (metis hd_dropWhile list.sel(1) list.distinct(1))
    have w: "\<forall>x\<in>set w. \<not> py_isspace x"
      using c by (auto simp: w_def dest: set_takeWhileD)
    have wl: "w \<noteq> []" "\<not> py_isspace (last w)"
      using w by (simp_all add: w_def)
    have split: "c # cs = w @ r"
      by (simp add: w_def r_def)
    have fields: "ws_fields s = w # ws_fields r"
      using Cons by (simp add: ws_fields.simps [of s] w_def r_def)
    have IH: "py_rstrip (re_sub_spaces (dropWhile py_isspace r)) = py_join '' '' (ws_fields r)"
      using "1.IH" [OF Cons] by (simp add: r_def)
    have sub: "re_sub_spaces (dropWhile py_isspace s) = w @ re_sub_spaces r"
      using Cons split re_sub_spaces_word [OF w] by simp
    show ?thesis
    proof (cases r)
      case Nil
      then show ?thesis
        using sub fields wl by (simp add: py_rstrip_word)
    next
      case (Cons d ds)
      then have d: "py_isspace d"
        using r_def by (metis hd_dropWhile list.sel(1) list.distinct(1))
      let ?g = "re_sub_spaces (dropWhile py_isspace r)"
      have g: "re_sub_spaces r = CHR '' '' # ?g"
        using Cons d by (simp add: re_sub_spaces.simps(2))
      show ?thesis
      proof (cases "ws_fields r = []")
        case True
        with IH have "py_rstrip ?g = []" by simp
        then have "py_rstrip (CHR '' '' # ?g) = []"
          by (simp add: py_rstrip_Nil_iff py_isspace_def)
        then have "py_rstrip (w @ CHR '' '' # ?g) = w"
          using wl by (simp add: py_rstrip_append py_rstrip_word)
        then show ?thesis
          using sub g fields True by simp
      next
        case False
        then have "hd (ws_fields r) \<noteq> []"
          using ws_fields_shape [of "hd (ws_fields r)" r] by simp
        with False IH have ne: "py_rstrip ?g \<noteq> []"
          by (simp add: py_join_nonempty)
        then have "py_rstrip ((w @ '' '') @ ?g) = (w @ '' '') @ py_rstrip ?g"
          by (simp only: py_rstrip_append if_False)
        then show ?thesis
          using sub g fields False IH by (simp add: py_join_Cons)
      qed
    qed
  qed
qed

lemma strip_sub_fields: "py_strip (re_sub_spaces s) = py_join '' '' (ws_fields s)"
  by (simp add: py_strip_def py_lstrip_def lstrip_re_sub_spaces rstrip_sub_fields)

lemma normalize_text_spec: "normalize_text (Some t) = spec_normalize t"
proof (cases "t = []")
  case True
  then show ?thesis by (simp add: normalize_text_def spec_normalize_def)
next
  case False
  have "fold (\<lambda>(old, new) s. py_replace old new s) replacements (py_lower t) = map fold_chr t"
    by (simp add: fold_replacements py_lower_def fold_chr_def)
  with False show ?thesis
    by (simp add: normalize_text_def spec_normalize_def strip_sub_fields)
qed

subsection \<open>Idempotence\<close>

lemma ws_fields_map:
  "ws_fields (map fold_chr s) = map (map fold_chr) (ws_fields s)"
proof (induction s rule: ws_fields.induct)
  case (1 s)
  have pre: "(py_isspace \<circ> fold_chr) = py_isspace" "((\<lambda>x. \<not> py_isspace x) \<circ> fold_chr) = (\<lambda>x. \<not> py_isspace x)"
    by (auto simp: isspace_fold_chr)
  have dw: "dropWhile py_isspace (map fold_chr s) = map fold_chr (dropWhile py_isspace s)"
    by (simp add: dropWhile_map pre)
  show ?case
  proof (cases "dropWhile py_isspace s")
    case Nil
    have "dropWhile py_isspace (map fold_chr s) = []"
      using dw unfolding Nil by simp
    then have "ws_fields (map fold_chr s) = []" by (rule ws_fields_blank)
    moreover have "ws_fields s = []" using Nil by (rule ws_fields_blank)
    ultimately show ?thesis by simp
  next
    case (Cons c cs)
    from "1.IH" [OF Cons] dw Cons show ?thesis
      by (simp add: ws_fields.simps [of s] ws_fields.simps [of "map fold_chr s"]
                    dropWhile_map takeWhile_map pre)
  qed
qed

lemma map_py_join:
  "map f (py_join sep ws) = py_join (map f sep) (map (map f) ws)"
  by (induction sep ws rule: py_join.induct) simp_all

lemma ws_fields_join:
  "\<forall>w\<in>set ws. w \<noteq> [] \<and> (\<forall>c\<in>set w. \<not> py_isspace c) \<Longrightarrow> ws_fields (py_join '' '' ws) = ws"
proof (induction "'' ''" ws rule: py_join.induct)
  case 1
  then show ?case by simp
next
  case (2 x)
  then obtain c cs where x: "x = c # cs" by (cases x) auto
  with 2 have c: "\<not> py_isspace c" "\<forall>y\<in>set cs. \<not> py_isspace y" by auto
  have tw: "takeWhile (\<lambda>x. \<not> py_isspace x) cs = cs"
    and dw: "dropWhile (\<lambda>x. \<not> py_isspace x) cs = []"
    using c(2) by simp_all
  have "ws_fields (c # cs) = [c # cs]"
    by (simp only: ws_fields_word [OF c(1)] tw dw ws_fields_Nil)
  then show ?case by (simp add: x)
next
  case (3 x y ys)
  then obtain c cs where x: "x = c # cs" by (cases x) auto
  with 3 have c: "\<not> py_isspace c" "\<forall>y\<in>set cs. \<not> py_isspace y" by auto
  have sp: "py_isspace (CHR '' '')" by (simp add: py_isspace_def)
  have rest: "ws_fields (py_join '' '' (y # ys)) = y # ys" using 3 by simp
  have tw: "takeWhile (\<lambda>x. \<not> py_isspace x) (cs @ CHR '' '' # py_join '' '' (y # ys)) = cs"
    using c(2) sp by (simp add: takeWhile_append)
  have dw: "dropWhile (\<lambda>x. \<not> py_isspace x) (cs @ CHR '' '' # py_join '' '' (y # ys))
              = CHR '' '' # py_join '' '' (y # ys)"
    using c(2) sp by (simp add: dropWhile_append)
  have "ws_fields (c # cs @ CHR '' '' # py_join '' '' (y # ys)) = (c # cs) # y # ys"
    by (simp only: ws_fields_word [OF c(1)] tw dw ws_fields_space [OF sp] rest)
  then show ?case by (simp add: x)
qed

lemma spec_normalize_idem: "spec_normalize (spec_normalize t) = spec_normalize t"
proof -
  let ?F = "ws_fields (map fold_chr t)"
  have shape: "\<forall>w\<in>set ?F. w \<noteq> [] \<and> (\<forall>c\<in>set w. \<not> py_isspace c)"
    using ws_fields_shape by blast
  have "map fold_chr (py_join '' '' ?F) = py_join '' '' (map (map fold_chr) ?F)"
    by (simp add: map_py_join fold_chr_space)
  also have "map (map fold_chr) ?F = ?F"
    by (simp add: ws_fields_map fold_chr_idem)
  finally have "map fold_chr (spec_normalize t) = spec_normalize t"
    by (simp add: spec_normalize_def)
  then have "spec_normalize (spec_normalize t) = py_join '' '' (ws_fields (spec_normalize t))"
    by (simp add: spec_normalize_def)
  also have "ws_fields (spec_normalize t) = ?F"
    unfolding spec_normalize_def by (rule ws_fields_join [OF shape])
  finally show ?thesis by (simp add: spec_normalize_def)
qed

text \<open>
  C4: \<open>normalize_text\<close> returns the empty string on a missing or empty input. On every
  input it returns the text lower-cased, with the characters of the fixed table replaced
  and no other character changed, its whitespace-separated pieces joined by single spaces
  (every run of whitespace collapsed to one space, none left at either end). The example
  of the specification (\<open>C\<close>, U+00D3, \<open>DIGO\<close>, two spaces, U+00DA, U+00F1, \<open>ico\<close>) gives
  \<open>codigo unico\<close>.
\<close>

theorem normalize_text_refines:
  "normalize_text None = []
   \<and> normalize_text (Some []) = []
   \<and> normalize_text (Some t) = spec_normalize t
   \<and> normalize_text (Some (''C'' @ [CHR 0xD3] @ ''DIGO  '' @ [CHR 0xDA, CHR 0xF1] @ ''ico''))
       = ''codigo unico''"
proof -
  have "normalize_text (Some (''C'' @ [CHR 0xD3] @ ''DIGO  '' @ [CHR 0xDA, CHR 0xF1] @ ''ico''))
          = ''codigo unico''"
    by code_simp
  moreover have "normalize_text None = []" "normalize_text (Some []) = []"
    by (simp_all add: normalize_text_def)
  moreover have "normalize_text (Some t) = spec_normalize t"
    by (rule normalize_text_spec)
  ultimately show ?thesis by simp
qed

text \<open>
  C9: \<open>normalize_text\<close> is idempotent, on a missing input as on a string; so the
  normalized description of an enriched entry is unchanged by a second normalization.
\<close>

theorem normalize_text_idempotent:
  "normalize_text (Some (normalize_text x)) = normalize_text x
   \<and> normalize_text (Some (descripcion_normalizada (enrich clock (i, cod, descri, precio))))
       = descripcion_normalizada (enrich clock (i, cod, descri, precio))"
proof -
  have idem: "normalize_text (Some (normalize_text y)) = normalize_text y" for y
  proof (cases y)
    case None
    then show ?thesis by (simp add: normalize_text_def)
  next
    case (Some t)
    then show ?thesis by (simp add: normalize_text_spec spec_normalize_idem)
  qed
  then show ?thesis by (simp add: enrich_def)
qed
section \<open>The query of the search endpoint\<close>

text \<open>
  What holds of the query for every list of terms: the parameters are the terms between
  two percent signs, one per term and in their order; the text of the query depends on
  the number of terms only, not on the terms; it has one parameter marker per term.
\<close>

lemma like_params_bound:
  "length (like_params terms) = length terms
   \<and> (\<forall>i<length terms. like_params terms ! i = ''%'' @ terms ! i @ ''%'')"
  by (simp add: like_params_def)

lemma build_query_text_fixed:
  "length terms = length terms' \<Longrightarrow> build_query terms = build_query terms'"
proof -
  assume "length terms = length terms'"
  then have "map (\<lambda>t. ''Descri LIKE ?'') terms = map (\<lambda>t. ''Descri LIKE ?'') terms'"
    by (simp add: map_replicate_const)
  then show ?thesis by (simp add: build_query_def like_clauses_def)
qed

lemma markers_like_clauses:
  "terms \<noteq> [] \<Longrightarrow> count_list (like_clauses terms) (CHR ''?'') = length terms"
proof (induction terms)
  case Nil
  then show ?case by simp
next
  case (Cons t ts)
  show ?case
  proof (cases ts)
    case Nil
    then show ?thesis by (simp add: like_clauses_def)
  next
    case (Cons u us)
    with Cons.IH have "count_list (like_clauses ts) (CHR ''?'') = length ts" by simp
    with Cons show ?thesis by (simp add: like_clauses_def)
  qed
qed

text \<open>
  The WHERE clause of the query for the terms \<open>t # ts\<close>, as the database reads it: each
  pattern but the last is a disjunct of its own, and the price condition is joined to the
  last pattern only. With one term this is the condition of the specification; with more
  it selects every row that the specification selects, and others.
\<close>

lemma py_split_nonempty: "py_split sep xs \<noteq> []"
  by (induction xs) (auto split: list.splits)

lemma py_split_append:
  "py_split sep (a @ sep # b) = py_split sep a @ py_split sep b"
proof (induction a)
  case Nil
  then show ?case by simp
next
  case (Cons c a)
  obtain w ws where "py_split sep a = w # ws"
    using py_split_nonempty [of sep a] by (cases "py_split sep a") auto
  with Cons show ?case by simp
qed

lemma py_split_no_sep: "sep \<notin> set a \<Longrightarrow> py_split sep a = [a]"
  by (induction a) auto

lemma sql_words_append: "sql_words (a @ CHR '' '' # b) = sql_words a @ sql_words b"
  by (simp add: sql_words_def py_split_append)

lemma sql_words_like: "sql_words ''Descri LIKE ?'' = [''Descri'', ''LIKE'', ''?'']"
  by code_simp

lemma sql_words_or: "sql_words ''OR'' = [''OR'']"
  by code_simp

lemma sql_words_like_clauses:
  "sql_words (like_clauses (t # ts)) = like_words (length ts)"
proof (induction ts arbitrary: t)
  case Nil
  then show ?case by (simp add: like_clauses_def sql_words_like)
next
  case (Cons u us)
  have "like_clauses (t # u # us)
          = ''Descri LIKE ?'' @ CHR '' '' # ''OR'' @ CHR '' '' # like_clauses (u # us)"
    by (simp add: like_clauses_def)
  then show ?case
    using Cons [of u] by (simp only: sql_words_append sql_words_like sql_words_or) simp
qed

lemma like_clauses_chars: "set (like_clauses terms) \<subseteq> set ''Descri LIKE ? OR''"
proof (induction terms)
  case Nil
  then show ?case by (simp add: like_clauses_def)
next
  case (Cons t ts)
  then show ?case by (cases ts) (auto simp: like_clauses_def)
qed

lemma like_clauses_one_line: "CHR 0x0A \<notin> set (like_clauses terms)"
  using like_clauses_chars [of terms] by auto


lemma query_lines:
  "py_split (CHR 0x0A) (build_query terms) =
     [[], ''                SELECT TOP 200 Codigo, Descri, PrecioFinal'',
      ''                FROM dbo.ConsStock'',
      ''                WHERE '' @ like_clauses terms @ '' AND PrecioFinal > 0'',
      ''                ORDER BY PrecioFinal ASC'',
      ''            '']"
proof -
  let ?nl = "CHR 0x0A"
  let ?l1 = "''                SELECT TOP 200 Codigo, Descri, PrecioFinal''"
  let ?l2 = "''                FROM dbo.ConsStock''"
  let ?l3 = "''                WHERE '' @ like_clauses terms @ '' AND PrecioFinal > 0''"
  let ?l4 = "''                ORDER BY PrecioFinal ASC''"
  let ?l5 = "''            ''"
  have q: "build_query terms
             = [] @ ?nl # (?l1 @ ?nl # (?l2 @ ?nl # (?l3 @ ?nl # (?l4 @ ?nl # ?l5))))"
    by (simp add: build_query_def)
  have 1: "py_split ?nl ?l1 = [?l1]" by (rule py_split_no_sep) simp
  have 2: "py_split ?nl ?l2 = [?l2]" by (rule py_split_no_sep) simp
  have 3: "py_split ?nl ?l3 = [?l3]"
    by (rule py_split_no_sep) (simp add: like_clauses_one_line)
  have 4: "py_split ?nl ?l4 = [?l4]" by (rule py_split_no_sep) simp
  have 5: "py_split ?nl ?l5 = [?l5]" by (rule py_split_no_sep) simp
  show ?thesis
    unfolding q py_split_append 1 2 3 4 5 by simp
qed

lemma where_tokens_build_query:
  "where_tokens (build_query (t # ts))
     = number_markers 0 (like_words (length ts) @ [''AND'', ''PrecioFinal'', ''>'', ''0''])"
proof -
  have 0: "sql_words [] = []" by code_simp
  have 1: "sql_words ''                SELECT TOP 200 Codigo, Descri, PrecioFinal''
             = [''SELECT'', ''TOP'', ''200'', ''Codigo,'', ''Descri,'', ''PrecioFinal'']"
    by code_simp
  have 2: "sql_words ''                FROM dbo.ConsStock'' = [''FROM'', ''dbo.ConsStock'']"
    by code_simp
  have 4: "sql_words ''                ORDER BY PrecioFinal ASC''
             = [''ORDER'', ''BY'', ''PrecioFinal'', ''ASC'']"
    by code_simp
  have 5: "sql_words ''            '' = []" by code_simp
  have w: "sql_words ''                WHERE'' = [''WHERE'']" by code_simp
  have a: "sql_words ''AND PrecioFinal > 0'' = [''AND'', ''PrecioFinal'', ''>'', ''0'']"
    by code_simp
  have "''                WHERE '' @ like_clauses (t # ts) @ '' AND PrecioFinal > 0''
          = ''                WHERE'' @ CHR '' '' # like_clauses (t # ts)
              @ CHR '' '' # ''AND PrecioFinal > 0''"
    by simp
  then have 3: "sql_words (''                WHERE '' @ like_clauses (t # ts) @ '' AND PrecioFinal > 0'')
             = ''WHERE'' # like_words (length ts) @ [''AND'', ''PrecioFinal'', ''>'', ''0'']"
    by (simp only: sql_words_append w a sql_words_like_clauses) simp
  define f where
    "f = (\<lambda>l. case sql_words l of
                [] \<Rightarrow> []
              | w # ws \<Rightarrow> if w = ''WHERE'' then number_markers 0 ws else [])"
  have f0: "f [] = []" by (simp add: f_def 0)
  have f1: "f ''                SELECT TOP 200 Codigo, Descri, PrecioFinal'' = []"
    by (simp add: f_def 1)
  have f2: "f ''                FROM dbo.ConsStock'' = []"
    by (simp add: f_def 2)
  have f3: "f (''                WHERE '' @ like_clauses (t # ts) @ '' AND PrecioFinal > 0'')
              = number_markers 0 (like_words (length ts) @ [''AND'', ''PrecioFinal'', ''>'', ''0''])"
    by (simp only: f_def 3) simp
  have f4: "f ''                ORDER BY PrecioFinal ASC'' = []"
    by (simp add: f_def 4)
  have f5: "f ''            '' = []"
    by (simp add: f_def 5)
  have "where_tokens (build_query (t # ts))
          = concat (map f (py_split (CHR 0x0A) (build_query (t # ts))))"
    by (simp add: where_tokens_def f_def)
  also have "\<dots> = concat [f [], f ''                SELECT TOP 200 Codigo, Descri, PrecioFinal'',
                            f ''                FROM dbo.ConsStock'',
                            f (''                WHERE '' @ like_clauses (t # ts) @ '' AND PrecioFinal > 0''),
                            f ''                ORDER BY PrecioFinal ASC'',
                            f ''            '']"
    by (simp only: query_lines list.map)
  also have "\<dots> = number_markers 0
                      (like_words (length ts) @ [''AND'', ''PrecioFinal'', ''>'', ''0''])"
    by (simp only: f0 f1 f2 f3 f4 f5) simp
  finally show ?thesis .
qed

lemma read_like_words:
  "map (\<lambda>d. map read_predicate (py_split (Word ''AND'') d))
     (py_split (Word ''OR'')
        (number_markers k (like_words m @ [''AND'', ''PrecioFinal'', ''>'', ''0''])))
   = map (\<lambda>j. [Descri_Like j]) [k..<k + m] @ [[Descri_Like (k + m), PrecioFinal_Positive]]"
proof (induction m arbitrary: k)
  case 0
  show ?case by simp
next
  case (Suc m)
  let ?rest = "number_markers (Suc k) (like_words m @ [''AND'', ''PrecioFinal'', ''>'', ''0''])"
  have "number_markers k (like_words (Suc m) @ [''AND'', ''PrecioFinal'', ''>'', ''0''])
          = [Word ''Descri'', Word ''LIKE'', Marker k] @ Word ''OR'' # ?rest"
    by simp
  then have "py_split (Word ''OR'')
               (number_markers k (like_words (Suc m) @ [''AND'', ''PrecioFinal'', ''>'', ''0'']))
          = [Word ''Descri'', Word ''LIKE'', Marker k] # py_split (Word ''OR'') ?rest"
    by (simp only: py_split_append) simp
  then show ?case
    using Suc [of "Suc k"] by (simp add: upt_conv_Cons)
qed

lemma where_condition_build_query:
  "where_condition (build_query (t # ts))
     = map (\<lambda>j. [Descri_Like j]) [0..<length ts]
       @ [[Descri_Like (length ts), PrecioFinal_Positive]]"
  unfolding where_condition_def where_tokens_build_query
  using read_like_words [of 0 "length ts"] by simp

lemma selects_build_query:
  "selects (build_query (t # ts)) r
     \<longleftrightarrow> (\<exists>j<length ts. matches r j) \<or> (matches r (length ts) \<and> price_positive r)"
  by (auto simp: selects_def where_condition_build_query list_ex_iff)

lemma selects_one_term: "selects (build_query [t]) r = spec_selects 1 r"
  by (simp add: selects_build_query spec_selects_def)

lemma spec_selects_selects:
  "spec_selects (length (t # ts)) r \<Longrightarrow> selects (build_query (t # ts)) r"
  by (auto simp: selects_build_query spec_selects_def list_ex_iff less_Suc_eq)

text \<open>
  C1: for the request \<open>query=martillo,clavo\<close>, \<open>search_multi\<close> runs the query built for
  the two terms with the parameters \<open>%martillo%\<close> and \<open>%clavo%\<close>. Its WHERE clause is
  \<open>Descri LIKE ? OR Descri LIKE ? AND PrecioFinal > 0\<close>. Read as SQL reads it, it is the
  disjunction of the first pattern alone and of the second pattern together with the
  price condition: it selects a row that matches the first pattern whatever its price,
  which the condition of the specification (one of the patterns matches, and the price is
  positive) does not.
\<close>

theorem search_where_precedence:
  "snd (search_multi (Some ''secret'') db_down two_terms_request)
     = [Db_Connect, Db_Execute (build_query two_terms) [''%martillo%'', ''%clavo%'']]
   \<and> where_condition (build_query two_terms)
       = [[Descri_Like 0], [Descri_Like 1, PrecioFinal_Positive]]
   \<and> selects (build_query two_terms) free_first_match
   \<and> \<not> spec_selects (length two_terms) free_first_match"
proof -
  have 0: "snd (search_multi (Some ''secret'') db_down two_terms_request)
             = [Db_Connect, Db_Execute (build_query two_terms) [''%martillo%'', ''%clavo%'']]"
    by code_simp
  have 1: "where_condition (build_query two_terms)
             = [[Descri_Like 0], [Descri_Like 1, PrecioFinal_Positive]]"
    by code_simp
  have 2: "selects (build_query two_terms) free_first_match"
    by (simp add: selects_def 1 free_first_match_def)
  have 3: "\<not> spec_selects (length two_terms) free_first_match"
    by (simp add: spec_selects_def free_first_match_def)
  from 0 1 2 3 show ?thesis by (intro conjI)
qed

end
